theory Spec2Isabelle
  imports Main "HOL-Library.Word"
begin

unbundle bit_operations_syntax

section \<open>The signer: HMAC-SHA256 as node:crypto computes it\<close>

text \<open>
  JavaScript strings reach the hash as their UTF-8 bytes. A \<^typ>\<open>string\<close> of this theory is
  that byte sequence (one \<^typ>\<open>char\<close> per byte). The hash itself belongs to the runtime
  (\<^verbatim>\<open>crypto.createHmac('sha256', secret)\<close>); it is written out here after FIPS 180-4 and
  RFC 2104 so that the signer can be evaluated.
\<close>

type_synonym byte = "8 word"
type_synonym u32 = "32 word"
type_synonym hash_state = "u32 \<times> u32 \<times> u32 \<times> u32 \<times> u32 \<times> u32 \<times> u32 \<times> u32"

definition bytes_of :: "string \<Rightarrow> byte list" where
  "bytes_of s = map of_char s"

text \<open>The round constants (FIPS 180-4, section 4.2.2), written in decimal.\<close>

definition K256 :: "u32 list" where
  "K256 =
   [1116352408, 1899447441, 3049323471, 3921009573, 961987163, 1508970993,
    2453635748, 2870763221, 3624381080, 310598401, 607225278, 1426881987,
    1925078388, 2162078206, 2614888103, 3248222580, 3835390401, 4022224774,
    264347078, 604807628, 770255983, 1249150122, 1555081692, 1996064986,
    2554220882, 2821834349, 2952996808, 3210313671, 3336571891, 3584528711,
    113926993, 338241895, 666307205, 773529912, 1294757372, 1396182291,
    1695183700, 1986661051, 2177026350, 2456956037, 2730485921, 2820302411,
    3259730800, 3345764771, 3516065817, 3600352804, 4094571909, 275423344,
    430227734, 506948616, 659060556, 883997877, 958139571, 1322822218,
    1537002063, 1747873779, 1955562222, 2024104815, 2227730452, 2361852424,
    2428436474, 2756734187, 3204031479, 3329325298]"

definition H256 :: hash_state where
  "H256 = (0x6a09e667, 0xbb67ae85, 0x3c6ef372, 0xa54ff53a,
           0x510e527f, 0x9b05688c, 0x1f83d9ab, 0x5be0cd19)"

definition Ch :: "u32 \<Rightarrow> u32 \<Rightarrow> u32 \<Rightarrow> u32" where
  "Ch x y z = (x AND y) XOR (NOT x AND z)"

definition Maj :: "u32 \<Rightarrow> u32 \<Rightarrow> u32 \<Rightarrow> u32" where
  "Maj x y z = (x AND y) XOR (x AND z) XOR (y AND z)"

definition Sigma0 :: "u32 \<Rightarrow> u32" where
  "Sigma0 x = word_rotr 2 x XOR word_rotr 13 x XOR word_rotr 22 x"

definition Sigma1 :: "u32 \<Rightarrow> u32" where
  "Sigma1 x = word_rotr 6 x XOR word_rotr 11 x XOR word_rotr 25 x"

definition sigma0 :: "u32 \<Rightarrow> u32" where
  "sigma0 x = word_rotr 7 x XOR word_rotr 18 x XOR drop_bit 3 x"

definition sigma1 :: "u32 \<Rightarrow> u32" where
  "sigma1 x = word_rotr 17 x XOR word_rotr 19 x XOR drop_bit 10 x"

definition be32 :: "byte \<Rightarrow> byte \<Rightarrow> byte \<Rightarrow> byte \<Rightarrow> u32" where
  "be32 a b c d = push_bit 24 (ucast a) OR push_bit 16 (ucast b) OR push_bit 8 (ucast c) OR ucast d"

fun words_of :: "byte list \<Rightarrow> u32 list" where
  "words_of (a # b # c # d # r) = be32 a b c d # words_of r"
| "words_of _ = []"

definition bytes_of_word :: "u32 \<Rightarrow> byte list" where
  "bytes_of_word w = [ucast (drop_bit 24 w), ucast (drop_bit 16 w), ucast (drop_bit 8 w), ucast w]"

fun schedule :: "nat \<Rightarrow> u32 list \<Rightarrow> u32 list" where
  "schedule 0 w = w"
| "schedule (Suc n) w =
     schedule n (w @ [sigma1 (w ! (length w - 2)) + w ! (length w - 7)
                      + sigma0 (w ! (length w - 15)) + w ! (length w - 16)])"

fun sha_round :: "u32 \<times> u32 \<Rightarrow> hash_state \<Rightarrow> hash_state" where
  "sha_round (k, w) (a, b, c, d, e, f, g, h) =
     (let T1 = h + Sigma1 e + Ch e f g + k + w;
          T2 = Sigma0 a + Maj a b c
      in (T1 + T2, a, b, c, d + T1, e, f, g))"

fun hash_add :: "hash_state \<Rightarrow> hash_state \<Rightarrow> hash_state" where
  "hash_add (a, b, c, d, e, f, g, h) (a', b', c', d', e', f', g', h') =
     (a + a', b + b', c + c', d + d', e + e', f + f', g + g', h + h')"

definition compress :: "hash_state \<Rightarrow> byte list \<Rightarrow> hash_state" where
  "compress H block = hash_add H (fold sha_round (zip K256 (schedule 48 (words_of block))) H)"

fun sha_blocks :: "hash_state \<Rightarrow> byte list \<Rightarrow> hash_state" where
  "sha_blocks H bs =
     (if length bs < 64 then H else sha_blocks (compress H (take 64 bs)) (drop 64 bs))"

declare sha_blocks.simps [simp del]

definition be64 :: "nat \<Rightarrow> byte list" where
  "be64 n = map (\<lambda>i. of_nat (n div 256 ^ i mod 256)) [7, 6, 5, 4, 3, 2, 1, 0]"

definition sha_pad :: "byte list \<Rightarrow> byte list" where
  "sha_pad m = m @ [0x80] @ replicate ((119 - length m mod 64) mod 64) 0 @ be64 (8 * length m)"

fun hash_bytes :: "hash_state \<Rightarrow> byte list" where
  "hash_bytes (a, b, c, d, e, f, g, h) = concat (map bytes_of_word [a, b, c, d, e, f, g, h])"

definition sha256 :: "byte list \<Rightarrow> byte list" where
  "sha256 m = hash_bytes (sha_blocks H256 (sha_pad m))"

text \<open>RFC 2104 with the 64-byte block of SHA-256: a key longer than a block is hashed
  first, a shorter one is filled up with zero bytes.\<close>

definition hmac_key_block :: "byte list \<Rightarrow> byte list" where
  "hmac_key_block key =
     (let k = (if length key > 64 then sha256 key else key)
      in k @ replicate (64 - length k) 0)"

definition hmac_sha256 :: "byte list \<Rightarrow> byte list \<Rightarrow> byte list" where
  "hmac_sha256 key msg =
     (let kb = hmac_key_block key
      in sha256 (map (\<lambda>b. b XOR 0x5c) kb @ sha256 (map (\<lambda>b. b XOR 0x36) kb @ msg)))"

definition hex_digit :: "nat \<Rightarrow> char" where
  "hex_digit n = ''0123456789abcdef'' ! (n mod 16)"

definition hex_of_bytes :: "byte list \<Rightarrow> string" where
  "hex_of_bytes bs = concat (map (\<lambda>b. [hex_digit (unat b div 16), hex_digit (unat b mod 16)]) bs)"

text \<open>\<^verbatim>\<open>String(timestamp)\<close> for a timestamp as \<^verbatim>\<open>Date.now()\<close> returns it: a non-negative
  integer number of milliseconds, rendered in decimal without leading zeros. (JavaScript
  switches to exponent notation from \<open>10\<^sup>2\<^sup>1\<close> on; timestamps are far below.)\<close>

fun decimal :: "nat \<Rightarrow> string" where
  "decimal n = (if n < 10 then [hex_digit n] else decimal (n div 10) @ [hex_digit (n mod 10)])"

declare decimal.simps [simp del]

text \<open>The \<^verbatim>\<open>Hmac\<close> object: \<^verbatim>\<open>createHmac\<close> fixes the key, each \<^verbatim>\<open>update\<close> appends to the
  message, \<^verbatim>\<open>digest('hex')\<close> finishes.\<close>

record hmac_obj =
  hm_key :: "byte list"
  hm_data :: "byte list"

definition createHmac :: "string \<Rightarrow> hmac_obj" where
  "createHmac secret = \<lparr>hm_key = bytes_of secret, hm_data = []\<rparr>"

definition update :: "string \<Rightarrow> hmac_obj \<Rightarrow> hmac_obj" where
  "update chunk h = h\<lparr>hm_data := hm_data h @ bytes_of chunk\<rparr>"

definition digest_hex :: "hmac_obj \<Rightarrow> string" where
  "digest_hex h = hex_of_bytes (hmac_sha256 (hm_key h) (hm_data h))"

definition signWebhook :: "string \<Rightarrow> nat \<Rightarrow> string \<Rightarrow> string" where
  "signWebhook secret timestamp body =
     (let h = createHmac secret;
          h = update (decimal timestamp) h;
          h = update ''.'' h;
          h = update body h
      in digest_hex h)"


section \<open>The tables\<close>

text \<open>
  The two tables of the schema that the webhook service reads and writes. \<^verbatim>\<open>active\<close> is an
  INTEGER column and the queries test \<^verbatim>\<open>active = 1\<close>; timestamps are points of a discrete
  clock; \<^verbatim>\<open>delivered_at\<close> is nullable.
\<close>

record webhook =
  wh_id :: nat
  wh_user_id :: nat
  wh_url :: string
  wh_secret :: string
  wh_events :: string
  wh_active :: nat
  wh_created_at :: nat

record webhook_event =
  we_id :: nat
  we_user_id :: nat
  we_event :: string
  we_payload :: string
  we_created_at :: nat
  we_delivered_at :: "nat option"
  we_attempts :: nat

definition MAX_RETRY_ATTEMPTS :: nat where
  "MAX_RETRY_ATTEMPTS = 5"

definition BATCH_SIZE :: nat where
  "BATCH_SIZE = 10"

section \<open>The network and the state\<close>

text \<open>
  Every \<^verbatim>\<open>fetch\<close> is recorded in a log, with the row it retries (none for a first attempt
  made by the dispatcher) and with its outcome: \<open>True\<close> when the promise resolves, whatever
  the HTTP status, \<open>False\<close> when it rejects (connection error, DNS failure). The outcome is
  the environment's: \<open>net url k\<close> tells whether the request number \<open>k\<close> (counted from 0)
  sent to \<open>url\<close> gets through.
\<close>

datatype origin = FromDispatch | FromRetry nat

record http_request =
  rq_url :: string
  rq_timestamp :: string
  rq_signature :: string
  rq_event :: string
  rq_body :: string
  rq_origin :: origin
  rq_ok :: bool

text \<open>A first attempt that has been sent and whose callback has not yet resumed: the
  closure of the \<^verbatim>\<open>forEach\<close> callback, waiting on its \<^verbatim>\<open>await fetch\<close>.\<close>

record pending =
  pd_user_id :: nat
  pd_event :: string
  pd_payload :: string
  pd_ok :: bool

record state =
  webhooks :: "webhook list"
  webhook_events :: "webhook_event list"
  seq_webhooks :: nat
  seq_webhook_events :: nat
  clock :: nat
  inflight :: "pending list"
  http_log :: "http_request list"

type_synonym network = "string \<Rightarrow> nat \<Rightarrow> bool"

definition init_state :: state where
  "init_state = \<lparr>webhooks = [], webhook_events = [], seq_webhooks = 0, seq_webhook_events = 0,
                  clock = 0, inflight = [], http_log = []\<rparr>"

definition requests_to :: "string \<Rightarrow> http_request list \<Rightarrow> nat" where
  "requests_to url log = length (filter (\<lambda>q. rq_url q = url) log)"

definition fetch ::
  "network \<Rightarrow> origin \<Rightarrow> string \<Rightarrow> string \<Rightarrow> string \<Rightarrow> string \<Rightarrow> string \<Rightarrow> state \<Rightarrow> bool \<times> state" where
  "fetch net org url ts signature event body s =
     (let ok = net url (requests_to url (http_log s))
      in (ok, s\<lparr>http_log := http_log s @
                  [\<lparr>rq_url = url, rq_timestamp = ts, rq_signature = signature, rq_event = event,
                    rq_body = body, rq_origin = org, rq_ok = ok\<rparr>]\<rparr>))"

definition advance :: "nat \<Rightarrow> state \<Rightarrow> state" where
  "advance d s = s\<lparr>clock := clock s + d\<rparr>"

section \<open>The dispatcher\<close>

text \<open>\<^verbatim>\<open>JSON.stringify\<close> of a string: quotes around it, the quote and the backslash
  escaped, control characters in their short or \<^verbatim>\<open>\u00XX\<close> form.\<close>

definition json_escape :: "char \<Rightarrow> string" where
  "json_escape c =
     (if c = CHR 0x22 then [CHR 0x5C, CHR 0x22]
      else if c = CHR 0x5C then [CHR 0x5C, CHR 0x5C]
      else if c = CHR 0x08 then [CHR 0x5C, CHR ''b'']
      else if c = CHR 0x09 then [CHR 0x5C, CHR ''t'']
      else if c = CHR 0x0A then [CHR 0x5C, CHR ''n'']
      else if c = CHR 0x0C then [CHR 0x5C, CHR ''f'']
      else if c = CHR 0x0D then [CHR 0x5C, CHR ''r'']
      else if (of_char c :: nat) < 32
        then [CHR 0x5C, CHR ''u'', CHR ''0'', CHR ''0'', hex_digit (of_char c div 16), hex_digit (of_char c mod 16)]
      else [c])"

definition json_string :: "string \<Rightarrow> string" where
  "json_string str = [CHR 0x22] @ concat (map json_escape str) @ [CHR 0x22]"

text \<open>\<^verbatim>\<open>JSON.stringify({ event, data: payloadObj })\<close>, where \<open>payloadObj\<close> stands for the JSON
  text of the payload object (every caller passes an object literal).\<close>

definition stringify_event :: "string \<Rightarrow> string \<Rightarrow> string" where
  "stringify_event event payloadObj =
     ''{'' @ json_string ''event'' @ '':'' @ json_string event @ '','' @
     json_string ''data'' @ '':'' @ payloadObj @ ''}''"

text \<open>\<^verbatim>\<open>SELECT * FROM webhooks WHERE user_id = ? AND active = 1\<close>\<close>

definition active_hooks :: "state \<Rightarrow> nat \<Rightarrow> webhook list" where
  "active_hooks s userId = filter (\<lambda>w. wh_user_id w = userId \<and> wh_active w = 1) (webhooks s)"

text \<open>The callback of \<^verbatim>\<open>hooks.forEach\<close> up to its \<^verbatim>\<open>await\<close>: it signs, sends the request and
  suspends.\<close>

definition dispatch_hook :: "network \<Rightarrow> nat \<Rightarrow> string \<Rightarrow> string \<Rightarrow> webhook \<Rightarrow> state \<Rightarrow> state" where
  "dispatch_hook net userId event payload hook s =
     (let timestamp = clock s;
          signature = signWebhook (wh_secret hook) timestamp payload;
          (ok, s') = fetch net FromDispatch (wh_url hook) (decimal timestamp) signature event payload s
      in s'\<lparr>inflight := inflight s' @
               [\<lparr>pd_user_id = userId, pd_event = event, pd_payload = payload, pd_ok = ok\<rparr>]\<rparr>)"

definition dispatchWebhook :: "network \<Rightarrow> nat \<Rightarrow> string \<Rightarrow> string \<Rightarrow> state \<Rightarrow> state" where
  "dispatchWebhook net userId event payloadObj s =
     (let payload = stringify_event event payloadObj;
          hooks = active_hooks s userId
      in fold (dispatch_hook net userId event payload) hooks s)"

text \<open>The two INSERT statements of the callback: columns not named take their default
  (\<^verbatim>\<open>delivered_at\<close> NULL); \<^verbatim>\<open>attempts\<close> is written as 1 by both; the id is the next of the
  AUTOINCREMENT sequence.\<close>

definition insert_delivered :: "nat \<Rightarrow> string \<Rightarrow> string \<Rightarrow> state \<Rightarrow> state" where
  "insert_delivered userId event payload s =
     s\<lparr>webhook_events := webhook_events s @
          [\<lparr>we_id = seq_webhook_events s + 1, we_user_id = userId, we_event = event,
            we_payload = payload, we_created_at = clock s, we_delivered_at = Some (clock s),
            we_attempts = 1\<rparr>],
       seq_webhook_events := seq_webhook_events s + 1\<rparr>"

definition insert_failed :: "nat \<Rightarrow> string \<Rightarrow> string \<Rightarrow> state \<Rightarrow> state" where
  "insert_failed userId event payload s =
     s\<lparr>webhook_events := webhook_events s @
          [\<lparr>we_id = seq_webhook_events s + 1, we_user_id = userId, we_event = event,
            we_payload = payload, we_created_at = clock s, we_delivered_at = None,
            we_attempts = 1\<rparr>],
       seq_webhook_events := seq_webhook_events s + 1\<rparr>"

text \<open>The callback resumes: the attempt number \<open>i\<close> among those in flight settles, and the
  \<^verbatim>\<open>try\<close> branch or the \<^verbatim>\<open>catch\<close> branch writes the row. Attempts settle in any order.\<close>

definition settle :: "nat \<Rightarrow> state \<Rightarrow> state" where
  "settle i s =
     (if i < length (inflight s)
      then let p = inflight s ! i;
               s' = s\<lparr>inflight := take i (inflight s) @ drop (Suc i) (inflight s)\<rparr>
           in if pd_ok p then insert_delivered (pd_user_id p) (pd_event p) (pd_payload p) s'
              else insert_failed (pd_user_id p) (pd_event p) (pd_payload p) s'
      else s)"

definition settle_all :: "state \<Rightarrow> state" where
  "settle_all s = (settle 0 ^^ length (inflight s)) s"

section \<open>The retry worker\<close>

text \<open>
  The query of a tick, clause by clause: the join on \<^verbatim>\<open>user_id\<close>, the WHERE, ORDER BY
  \<^verbatim>\<open>created_at\<close> ASC and the LIMIT. SQL leaves the order of rows with equal
  \<^verbatim>\<open>created_at\<close> open; here they keep the order of the join (the sort is stable).
\<close>

definition retry_eligible :: "webhook_event \<times> webhook \<Rightarrow> bool" where
  "retry_eligible = (\<lambda>(we, w). wh_user_id w = we_user_id we \<and> we_delivered_at we = None
                        \<and> wh_active w = 1 \<and> we_attempts we < MAX_RETRY_ATTEMPTS)"

definition select_undelivered :: "state \<Rightarrow> (webhook_event \<times> webhook) list" where
  "select_undelivered s =
     take BATCH_SIZE
       (sort_key (\<lambda>(we, w). we_created_at we)
          (filter retry_eligible (List.product (webhook_events s) (webhooks s))))"

text \<open>The two UPDATE statements, \<^verbatim>\<open>WHERE id = ?\<close>.\<close>

definition update_delivered :: "nat \<Rightarrow> state \<Rightarrow> state" where
  "update_delivered rid s =
     s\<lparr>webhook_events :=
          map (\<lambda>r. if we_id r = rid
                    then r\<lparr>we_delivered_at := Some (clock s), we_attempts := we_attempts r + 1\<rparr>
                    else r) (webhook_events s)\<rparr>"

definition update_failed :: "nat \<Rightarrow> state \<Rightarrow> state" where
  "update_failed rid s =
     s\<lparr>webhook_events :=
          map (\<lambda>r. if we_id r = rid then r\<lparr>we_attempts := we_attempts r + 1\<rparr> else r)
            (webhook_events s)\<rparr>"

text \<open>The body of the \<^verbatim>\<open>for\<close> loop, for one selected row; the loop awaits each request
  before the next.\<close>

definition retry_row :: "network \<Rightarrow> webhook_event \<times> webhook \<Rightarrow> state \<Rightarrow> state" where
  "retry_row net row s =
     (let we = fst row; w = snd row;
          timestamp = clock s;
          signature = signWebhook (wh_secret w) timestamp (we_payload we);
          (ok, s') = fetch net (FromRetry (we_id we)) (wh_url w) (decimal timestamp) signature
                       (we_event we) (we_payload we) s
      in if ok then update_delivered (we_id we) s' else update_failed (we_id we) s')"

text \<open>A tick that nothing overlaps and whose requests settle at once: the SELECT, and then
  the loop body for each row of the batch in turn. The next section takes the callback
  apart at its \<^verbatim>\<open>await\<close>.\<close>

definition worker_tick :: "network \<Rightarrow> state \<Rightarrow> state" where
  "worker_tick net s = fold (retry_row net) (select_undelivered s) s"

section \<open>The retry worker, one await at a time\<close>

text \<open>
  The callback that \<^verbatim>\<open>setInterval\<close> starts is an \<^verbatim>\<open>async\<close> function. It runs the SELECT and
  the first turn of the loop up to \<^verbatim>\<open>await fetch\<close>, and there it is suspended; when the
  request settles it resumes, runs the UPDATE of the \<^verbatim>\<open>try\<close> or of the \<^verbatim>\<open>catch\<close> branch and
  the next turn of the loop up to its \<^verbatim>\<open>await\<close>, or returns when the batch is used up.
  Between two such stretches anything else may run: a handler, the callback of a
  dispatch, and the next callback of the timer, which starts every 15 seconds whether or
  not the earlier ones have returned (nothing in the source makes a tick wait for another).

  A suspended callback holds the row it is retrying, the rest of the batch that its
  SELECT returned, and (in this model, where the network decides the outcome when the
  request is sent) whether the request got through.
\<close>

record ticking =
  tk_row :: "webhook_event \<times> webhook"
  tk_ok :: bool
  tk_rest :: "(webhook_event \<times> webhook) list"

type_synonym system = "state \<times> ticking list"

text \<open>The loop body up to the \<^verbatim>\<open>await\<close>: timestamp, signature, request.\<close>

definition retry_send :: "network \<Rightarrow> webhook_event \<times> webhook \<Rightarrow> state \<Rightarrow> bool \<times> state" where
  "retry_send net row s =
     (let we = fst row; w = snd row;
          timestamp = clock s;
          signature = signWebhook (wh_secret w) timestamp (we_payload we)
      in fetch net (FromRetry (we_id we)) (wh_url w) (decimal timestamp) signature
           (we_event we) (we_payload we) s)"

text \<open>The loop body after the \<^verbatim>\<open>await\<close>: the UPDATE of the \<^verbatim>\<open>try\<close> branch when the request
  got through, of the \<^verbatim>\<open>catch\<close> branch when it did not.\<close>

definition retry_update :: "webhook_event \<times> webhook \<Rightarrow> bool \<Rightarrow> state \<Rightarrow> state" where
  "retry_update row ok s =
     (if ok then update_delivered (we_id (fst row)) s else update_failed (we_id (fst row)) s)"

text \<open>The \<^verbatim>\<open>for\<close> loop at the top of a turn: with no row left the callback returns,
  otherwise it sends the request for the next row and is suspended.\<close>

definition tick_loop ::
  "network \<Rightarrow> (webhook_event \<times> webhook) list \<Rightarrow> state \<Rightarrow> state \<times> ticking list" where
  "tick_loop net rows s =
     (case rows of
        [] \<Rightarrow> (s, [])
      | row # rest \<Rightarrow>
          (let (ok, s') = retry_send net row s
           in (s', [\<lparr>tk_row = row, tk_ok = ok, tk_rest = rest\<rparr>])))"

text \<open>The timer fires: the SELECT on the rows as they are now, and the loop up to its
  first \<^verbatim>\<open>await\<close>.\<close>

definition tick_start :: "network \<Rightarrow> system \<Rightarrow> system" where
  "tick_start net sys =
     (let (s, ts) = sys;
          (s', t) = tick_loop net (select_undelivered s) s
      in (s', ts @ t))"

text \<open>The request of the suspended callback number \<open>k\<close> settles: the callback writes its
  UPDATE on the rows as they are now and goes on with the batch it selected when it
  started.\<close>

definition tick_resume :: "network \<Rightarrow> nat \<Rightarrow> system \<Rightarrow> system" where
  "tick_resume net k sys =
     (let (s, ts) = sys
      in if k < length ts
         then let t = ts ! k;
                  (s', t') = tick_loop net (tk_rest t) (retry_update (tk_row t) (tk_ok t) s)
              in (s', take k ts @ t' @ drop (Suc k) ts)
         else sys)"


section \<open>The subscription registry\<close>

definition ALLOWED_WEBHOOK_EVENTS :: "string list" where
  "ALLOWED_WEBHOOK_EVENTS =
     [''favorite.added'', ''favorite.removed'', ''note.updated'', ''snippets.updated'',
      ''reading.started'', ''reading.stopped'', ''site.started'', ''site.stopped'']"

text \<open>
  The fields of \<^verbatim>\<open>req.body\<close> that the handlers read. A field is a string or is missing;
  \<^verbatim>\<open>events\<close> is a string (a form field, comma separated), an array of strings, or missing.
\<close>

datatype events_arg = EvAbsent | EvString string | EvArray "string list"

record create_req =
  body_url :: "string option"
  body_secret :: "string option"
  body_events :: events_arg

datatype response = Redirect string | JsonError nat string string | JsonSuccess

text \<open>JavaScript truthiness of a field: a missing field and the empty string are falsy, an
  array is truthy even when empty.\<close>

fun truthy_field :: "string option \<Rightarrow> bool" where
  "truthy_field None = False"
| "truthy_field (Some str) = (str \<noteq> [])"

fun truthy_events :: "events_arg \<Rightarrow> bool" where
  "truthy_events EvAbsent = False"
| "truthy_events (EvString str) = (str \<noteq> [])"
| "truthy_events (EvArray xs) = True"

text \<open>\<^verbatim>\<open>str.split(',')\<close> and \<^verbatim>\<open>arr.join(',')\<close>.\<close>

fun split_comma :: "string \<Rightarrow> string list" where
  "split_comma [] = [[]]"
| "split_comma (c # cs) =
     (if c = CHR '','' then [] # split_comma cs
      else (case split_comma cs of [] \<Rightarrow> [[c]] | x # xs \<Rightarrow> (c # x) # xs))"

fun join_comma :: "string list \<Rightarrow> string" where
  "join_comma [] = []"
| "join_comma [x] = x"
| "join_comma (x # y # ys) = x @ '','' @ join_comma (y # ys)"

text \<open>\<^verbatim>\<open>str.trim()\<close>: the white space and line terminators of ECMAScript are removed at
  both ends. On UTF-8 bytes these are the ASCII ones and the encodings of U+00A0, U+1680,
  U+2000 to U+200A, U+2028, U+2029, U+202F, U+205F, U+3000 and U+FEFF.\<close>

definition ws_sequences :: "string list" where
  "ws_sequences =
     [[CHR 0xE1, CHR 0x9A, CHR 0x80],
      [CHR 0xE2, CHR 0x80, CHR 0x80], [CHR 0xE2, CHR 0x80, CHR 0x81],
      [CHR 0xE2, CHR 0x80, CHR 0x82], [CHR 0xE2, CHR 0x80, CHR 0x83],
      [CHR 0xE2, CHR 0x80, CHR 0x84], [CHR 0xE2, CHR 0x80, CHR 0x85],
      [CHR 0xE2, CHR 0x80, CHR 0x86], [CHR 0xE2, CHR 0x80, CHR 0x87],
      [CHR 0xE2, CHR 0x80, CHR 0x88], [CHR 0xE2, CHR 0x80, CHR 0x89],
      [CHR 0xE2, CHR 0x80, CHR 0x8A],
      [CHR 0xE2, CHR 0x80, CHR 0xA8], [CHR 0xE2, CHR 0x80, CHR 0xA9],
      [CHR 0xE2, CHR 0x80, CHR 0xAF], [CHR 0xE2, CHR 0x81, CHR 0x9F],
      [CHR 0xE3, CHR 0x80, CHR 0x80], [CHR 0xEF, CHR 0xBB, CHR 0xBF]]"

definition ws_length :: "string \<Rightarrow> nat" where
  "ws_length str =
     (if str = [] then 0
      else if hd str \<in> set [CHR 0x09, CHR 0x0A, CHR 0x0B, CHR 0x0C, CHR 0x0D, CHR 0x20] then 1
      else if take 2 str = [CHR 0xC2, CHR 0xA0] then 2
      else if take 3 str \<in> set ws_sequences then 3
      else 0)"

fun trim_start_n :: "nat \<Rightarrow> string \<Rightarrow> string" where
  "trim_start_n 0 str = str"
| "trim_start_n (Suc n) str =
     (let k = ws_length str in if k = 0 then str else trim_start_n n (drop k str))"

definition ws_length_end :: "string \<Rightarrow> nat" where
  "ws_length_end str =
     (let n = length str in
      if 1 \<le> n \<and> ws_length (drop (n - 1) str) = 1 then 1
      else if 2 \<le> n \<and> ws_length (drop (n - 2) str) = 2 then 2
      else if 3 \<le> n \<and> ws_length (drop (n - 3) str) = 3 then 3
      else 0)"

fun trim_end_n :: "nat \<Rightarrow> string \<Rightarrow> string" where
  "trim_end_n 0 str = str"
| "trim_end_n (Suc n) str =
     (let k = ws_length_end str in if k = 0 then str else trim_end_n n (take (length str - k) str))"

definition trim :: "string \<Rightarrow> string" where
  "trim str = trim_end_n (length str) (trim_start_n (length str) str)"

text \<open>\<^verbatim>\<open>Array.isArray(events) ? events : String(events).split(',')\<close>\<close>

fun event_list :: "events_arg \<Rightarrow> string list" where
  "event_list (EvArray xs) = xs"
| "event_list (EvString str) = split_comma str"
| "event_list EvAbsent = split_comma ''undefined''"

text \<open>\<^verbatim>\<open>INSERT INTO webhooks (user_id, url, secret, events, active, created_at)
  VALUES (?, ?, ?, ?, 1, CURRENT_TIMESTAMP)\<close>\<close>

definition insert_webhook :: "nat \<Rightarrow> string \<Rightarrow> string \<Rightarrow> string \<Rightarrow> state \<Rightarrow> state" where
  "insert_webhook userId url secret events s =
     s\<lparr>webhooks := webhooks s @
          [\<lparr>wh_id = seq_webhooks s + 1, wh_user_id = userId, wh_url = url, wh_secret = secret,
            wh_events = events, wh_active = 1, wh_created_at = clock s\<rparr>],
       seq_webhooks := seq_webhooks s + 1\<rparr>"

text \<open>
  \<^verbatim>\<open>createWebhook\<close>, the self-service handler. The URL parser is the runtime's:
  \<open>url_protocol u\<close> is \<open>None\<close> when \<^verbatim>\<open>new URL(u)\<close> throws and the \<^verbatim>\<open>protocol\<close> of the parsed URL
  otherwise. \<open>isProd\<close> is \<^verbatim>\<open>NODE_ENV === 'production'\<close>, \<open>isBrowserRequest\<close> is
  \<^verbatim>\<open>!!req.session\<close>.
\<close>

definition createWebhook ::
  "(string \<Rightarrow> string option) \<Rightarrow> bool \<Rightarrow> nat \<Rightarrow> bool \<Rightarrow> create_req \<Rightarrow> state \<Rightarrow> response \<times> state" where
  "createWebhook url_protocol isProd userId isBrowserRequest req s =
     (if \<not> truthy_field (body_url req) \<or> \<not> truthy_field (body_secret req)
         \<or> \<not> truthy_events (body_events req)
      then (if isBrowserRequest then Redirect ''/settings''
            else JsonError 400 ''Missing required fields'' ''bad_request'', s)
      else
        let url = the (body_url req); secret = the (body_secret req) in
        case url_protocol url of
          None \<Rightarrow> (if isBrowserRequest then Redirect ''/settings''
                   else JsonError 400 ''Invalid URL format'' ''bad_url'', s)
        | Some protocol \<Rightarrow>
            if protocol \<noteq> ''https:'' \<and> isProd
            then (if isBrowserRequest then Redirect ''/settings''
                  else JsonError 400 ''HTTPS is required in production'' ''insecure_url'', s)
            else if protocol \<notin> set [''http:'', ''https:'']
            then (if isBrowserRequest then Redirect ''/settings''
                  else JsonError 400 ''Invalid URL format'' ''bad_url'', s)
            else
              let eventList = event_list (body_events req);
                  normalizedEvents = filter (\<lambda>e. e \<noteq> []) (map trim eventList)
              in if \<not> isBrowserRequest
                    \<and> \<not> list_all (\<lambda>e. e \<in> set ALLOWED_WEBHOOK_EVENTS) normalizedEvents
                 then (JsonError 400 ''Contains invalid event types'' ''bad_events'', s)
                 else
                   let validEvents = filter (\<lambda>e. e \<in> set ALLOWED_WEBHOOK_EVENTS) normalizedEvents
                   in if isBrowserRequest \<and> validEvents = [] then (Redirect ''/settings'', s)
                      else (if isBrowserRequest then Redirect ''/settings'' else JsonSuccess,
                            insert_webhook userId url secret (join_comma validEvents) s))"

text \<open>
  \<^verbatim>\<open>createUserWebhook\<close>, the administrator's handler for the user \<open>userId\<close>. It has no check
  for missing fields: \<^verbatim>\<open>new URL(undefined)\<close> throws, and a missing secret violates NOT NULL,
  which the \<^verbatim>\<open>try\<close> around the INSERT swallows. \<open>wantsJson\<close> is
  \<^verbatim>\<open>req.xhr || req.headers.accept?.includes('json')\<close>. The table \<^verbatim>\<open>users\<close> is not part of
  the model: \<open>userId\<close> is taken to be the id of an existing user (for any other id the
  INSERT violates the foreign key of \<^verbatim>\<open>webhooks.user_id\<close>, the error is swallowed as well,
  and nothing is stored).
\<close>

definition createUserWebhook ::
  "(string \<Rightarrow> string option) \<Rightarrow> bool \<Rightarrow> nat \<Rightarrow> bool \<Rightarrow> create_req \<Rightarrow> state \<Rightarrow> response \<times> state" where
  "createUserWebhook url_protocol isProd userId wantsJson req s =
     (let back = Redirect (''/admin?userId='' @ decimal userId) in
      case (case body_url req of None \<Rightarrow> None | Some url \<Rightarrow> url_protocol url) of
        None \<Rightarrow> (back, s)
      | Some protocol \<Rightarrow>
          if protocol \<noteq> ''https:'' \<and> isProd then (back, s)
          else if protocol \<notin> set [''http:'', ''https:''] then (back, s)
          else
            let inputEvents = event_list (body_events req);
                validEvents = filter (\<lambda>e. e \<in> set ALLOWED_WEBHOOK_EVENTS) (map trim inputEvents)
            in if validEvents = [] then (back, s)
               else (if wantsJson then JsonSuccess else back,
                     case body_secret req of
                       None \<Rightarrow> s
                     | Some secret \<Rightarrow>
                         insert_webhook userId (the (body_url req)) secret (join_comma validEvents) s))"

text \<open>\<^verbatim>\<open>DELETE FROM webhooks WHERE id = ? AND user_id = ?\<close>, as both delete handlers run it.\<close>

definition deleteWebhook :: "nat \<Rightarrow> nat \<Rightarrow> state \<Rightarrow> state" where
  "deleteWebhook userId hookId s =
     s\<lparr>webhooks := filter (\<lambda>w. \<not> (wh_id w = hookId \<and> wh_user_id w = userId)) (webhooks s)\<rparr>"

section \<open>Runs of the system\<close>

text \<open>What can happen, one event at a time: an application event is dispatched, an attempt
  in flight settles, the worker's timer fires, time passes, a subscription is created or
  deleted.\<close>

datatype step =
    Dispatch nat string string
  | Settle nat
  | Tick
  | Advance nat
  | CreateWebhook nat bool create_req
  | CreateUserWebhook nat bool create_req
  | DeleteWebhook nat nat

record env =
  env_net :: network
  env_url_protocol :: "string \<Rightarrow> string option"
  env_isProd :: bool

fun exec :: "env \<Rightarrow> step \<Rightarrow> state \<Rightarrow> state" where
  "exec e (Dispatch userId event payloadObj) s = dispatchWebhook (env_net e) userId event payloadObj s"
| "exec e (Settle i) s = settle i s"
| "exec e Tick s = worker_tick (env_net e) s"
| "exec e (Advance d) s = advance d s"
| "exec e (CreateWebhook userId isBrowserRequest req) s =
     snd (createWebhook (env_url_protocol e) (env_isProd e) userId isBrowserRequest req s)"
| "exec e (CreateUserWebhook userId wantsJson req) s =
     snd (createUserWebhook (env_url_protocol e) (env_isProd e) userId wantsJson req s)"
| "exec e (DeleteWebhook userId hookId) s = deleteWebhook userId hookId s"

definition run :: "env \<Rightarrow> step list \<Rightarrow> state \<Rightarrow> state" where
  "run e steps s = fold (exec e) steps s"

text \<open>The requests sent between an earlier state and a later one.\<close>

definition new_requests :: "state \<Rightarrow> state \<Rightarrow> http_request list" where
  "new_requests s s' = drop (length (http_log s)) (http_log s')"

text \<open>
  The system with the worker's callbacks one \<^verbatim>\<open>await\<close> at a time: besides the steps above,
  the timer starts a callback and a suspended callback resumes, in any order. The step
  \<open>Tick\<close> above is the particular case of a callback whose requests all settle before
  anything else runs.
\<close>

datatype action = Do step | TickStart | TickResume nat

fun sys_exec :: "env \<Rightarrow> action \<Rightarrow> system \<Rightarrow> system" where
  "sys_exec e (Do st) sys = (exec e st (fst sys), snd sys)"
| "sys_exec e TickStart sys = tick_start (env_net e) sys"
| "sys_exec e (TickResume k) sys = tick_resume (env_net e) k sys"

definition sys_run :: "env \<Rightarrow> action list \<Rightarrow> system \<Rightarrow> system" where
  "sys_run e acts sys = fold (sys_exec e) acts sys"

text \<open>A tick that nothing overlaps: after a delay \<open>d\<close> the timer starts the callback, and
  each of its requests settles, after a time \<open>wt\<close>, before anything else happens (a batch
  has at most \<open>BATCH_SIZE\<close> rows; once the callback has returned, resuming it does nothing
  and only time passes).\<close>

definition lone_tick :: "nat \<Rightarrow> nat \<Rightarrow> action list" where
  "lone_tick d wt =
     Do (Advance d) # TickStart # concat (replicate BATCH_SIZE [Do (Advance wt), TickResume 0])"

text \<open>Ticks that do not overlap, one after the other; \<open>ds\<close> lists for each tick the delay
  before it (15 seconds in the deployment) and the time its requests take.\<close>

definition lone_ticks :: "(nat \<times> nat) list \<Rightarrow> action list" where
  "lone_ticks ds = concat (map (\<lambda>(d, wt). lone_tick d wt) ds)"


section \<open>Predicates on the ledger\<close>

text \<open>A row that the worker may still retry: not delivered and below the cap.\<close>

definition pending_row :: "webhook_event \<Rightarrow> bool" where
  "pending_row r \<longleftrightarrow> we_delivered_at r = None \<and> we_attempts r < MAX_RETRY_ATTEMPTS"

text \<open>The row that the callback of an attempt writes when it resumes at time \<open>now\<close>.\<close>

definition fresh_row :: "nat \<Rightarrow> pending \<Rightarrow> webhook_event \<Rightarrow> bool" where
  "fresh_row now p r \<longleftrightarrow> we_user_id r = pd_user_id p \<and> we_event r = pd_event p
      \<and> we_payload r = pd_payload p \<and> we_created_at r = now \<and> we_attempts r = 1
      \<and> we_delivered_at r = (if pd_ok p then Some now else None)"

text \<open>A row as it was and as it is later: same identity and content, attempts not
  decreased, a delivery time not taken away.\<close>

definition row_advances :: "webhook_event \<Rightarrow> webhook_event \<Rightarrow> bool" where
  "row_advances r r' \<longleftrightarrow> we_id r' = we_id r \<and> we_user_id r' = we_user_id r
      \<and> we_event r' = we_event r \<and> we_payload r' = we_payload r
      \<and> we_created_at r' = we_created_at r \<and> we_attempts r \<le> we_attempts r'
      \<and> (we_delivered_at r \<noteq> None \<longrightarrow> we_delivered_at r' \<noteq> None)"

text \<open>A state and a later one: the request log only grows, rows keep their place and
  advance, and a row that was undelivered and now is delivered has a successful retry
  among the requests sent in between.\<close>

definition evolves :: "state \<Rightarrow> state \<Rightarrow> bool" where
  "evolves s s' \<longleftrightarrow>
     (\<exists>R. http_log s' = http_log s @ R)
     \<and> length (webhook_events s) \<le> length (webhook_events s')
     \<and> (\<forall>i < length (webhook_events s).
           row_advances (webhook_events s ! i) (webhook_events s' ! i)
           \<and> (we_delivered_at (webhook_events s ! i) = None
                \<and> we_delivered_at (webhook_events s' ! i) \<noteq> None
              \<longrightarrow> (\<exists>q \<in> set (new_requests s s').
                     rq_origin q = FromRetry (we_id (webhook_events s ! i)) \<and> rq_ok q)))"

text \<open>Every row has at least one attempt, and every first attempt sent is either still in
  flight or has its row.\<close>

definition first_attempts_accounted :: "state \<Rightarrow> bool" where
  "first_attempts_accounted s \<longleftrightarrow>
     (\<forall>r \<in> set (webhook_events s). 1 \<le> we_attempts r)
     \<and> length (webhook_events s) + length (inflight s)
         = length (filter (\<lambda>q. rq_origin q = FromDispatch) (http_log s))"

text \<open>The row at place \<open>i\<close> is \<open>r\<close>, its id has been handed out, and no row with that id
  can be retried.\<close>

definition row_closed :: "nat \<Rightarrow> webhook_event \<Rightarrow> state \<Rightarrow> bool" where
  "row_closed i r s \<longleftrightarrow>
     i < length (webhook_events s) \<and> webhook_events s ! i = r
     \<and> we_id r \<le> seq_webhook_events s
     \<and> (\<forall>x \<in> set (webhook_events s). we_id x = we_id r \<longrightarrow> \<not> pending_row x)"

text \<open>The ids of the rows that suspended callbacks of the worker still hold: the row each
  one is retrying and the rest of its batch.\<close>

definition held_ids :: "ticking list \<Rightarrow> nat list" where
  "held_ids ts = concat (map (\<lambda>t. map (we_id \<circ> fst) (tk_row t # tk_rest t)) ts)"


section \<open>Predicates on creation requests\<close>

text \<open>The claim's condition on the URL, in its words: the URL is missing or unparseable,
  or its scheme is not http or https, or it is not https in production.\<close>

definition url_rejected :: "(string \<Rightarrow> string option) \<Rightarrow> bool \<Rightarrow> string option \<Rightarrow> bool" where
  "url_rejected url_protocol isProd url \<longleftrightarrow>
     (case url of
        None \<Rightarrow> True
      | Some u \<Rightarrow>
          (case url_protocol u of
             None \<Rightarrow> True
           | Some p \<Rightarrow> p \<notin> set [''http:'', ''https:''] \<or> (isProd \<and> p \<noteq> ''https:'')))"

text \<open>The event names of a request as both handlers read them: the list split at commas
  (or the array), each name trimmed.\<close>

definition requested_events :: "create_req \<Rightarrow> string list" where
  "requested_events req = map trim (event_list (body_events req))"

text \<open>The row \<open>w\<close> is what an accepted request \<open>req\<close> stores in state \<open>s\<close>: the next id, the
  owner, the request's URL (one that passes the URL check) and secret, active, and as
  events the valid names of the request joined by commas.\<close>

definition stored_for ::
  "(string \<Rightarrow> string option) \<Rightarrow> bool \<Rightarrow> nat \<Rightarrow> create_req \<Rightarrow> state \<Rightarrow> webhook \<Rightarrow> bool" where
  "stored_for url_protocol isProd userId req s w \<longleftrightarrow>
     wh_id w = seq_webhooks s + 1 \<and> wh_user_id w = userId \<and> wh_active w = 1
     \<and> body_url req = Some (wh_url w) \<and> body_secret req = Some (wh_secret w)
     \<and> \<not> url_rejected url_protocol isProd (body_url req)
     \<and> wh_events w = join_comma (filter (\<lambda>e. e \<in> set ALLOWED_WEBHOOK_EVENTS) (requested_events req))"

section \<open>Example states\<close>

definition hook_a :: webhook where
  "hook_a = \<lparr>wh_id = 1, wh_user_id = 1, wh_url = ''https://a.example/hook'', wh_secret = ''sa'',
             wh_events = ''note.updated'', wh_active = 1, wh_created_at = 0\<rparr>"

definition hook_b :: webhook where
  "hook_b = \<lparr>wh_id = 2, wh_user_id = 1, wh_url = ''https://b.example/hook'', wh_secret = ''sb'',
             wh_events = ''favorite.added'', wh_active = 1, wh_created_at = 0\<rparr>"

definition two_hooks :: state where
  "two_hooks = init_state\<lparr>webhooks := [hook_a, hook_b], seq_webhooks := 2\<rparr>"

text \<open>A network on which only the endpoint of \<open>hook_a\<close> can be reached.\<close>

definition only_a :: network where
  "only_a = (\<lambda>url k. url = ''https://a.example/hook'')"

definition env_a :: env where
  "env_a = \<lparr>env_net = only_a, env_url_protocol = (\<lambda>u. None), env_isProd = False\<rparr>"

text \<open>One subscription, one row whose first attempt failed, one attempt still in flight.\<close>

definition one_pending :: state where
  "one_pending =
     init_state\<lparr>webhooks := [hook_a], seq_webhooks := 1,
       webhook_events := [\<lparr>we_id = 1, we_user_id = 1, we_event = ''note.updated'',
         we_payload = ''{}'', we_created_at = 0, we_delivered_at = None, we_attempts = 1\<rparr>],
       seq_webhook_events := 1,
       inflight := [\<lparr>pd_user_id = 1, pd_event = ''site.started'', pd_payload = ''{}'', pd_ok = True\<rparr>]\<rparr>"

text \<open>A production deployment whose URL parser is given on the URLs of the examples
  only, and two creation requests.\<close>

definition example_url_protocol :: "string \<Rightarrow> string option" where
  "example_url_protocol u =
     (if u = ''https://a.example/hook'' then Some ''https:''
      else if u = ''http://a.example/hook'' then Some ''http:''
      else if u = ''ftp://a.example/hook'' then Some ''ftp:''
      else None)"

definition env_prod :: env where
  "env_prod = \<lparr>env_net = only_a, env_url_protocol = example_url_protocol, env_isProd = True\<rparr>"

definition req_a :: create_req where
  "req_a = \<lparr>body_url = Some ''https://a.example/hook'', body_secret = Some ''sa'',
            body_events = EvString ''note.updated''\<rparr>"

definition req_mixed :: create_req where
  "req_mixed = \<lparr>body_url = Some ''https://a.example/hook'', body_secret = Some ''sa'',
                body_events = EvString ''note.updated, bogus''\<rparr>"

text \<open>Twelve undelivered rows of user 1, created at the times 1 to 12, with one and with
  two active subscriptions of that user.\<close>

definition twelve_rows :: "webhook_event list" where
  "twelve_rows =
     map (\<lambda>i. \<lparr>we_id = i, we_user_id = 1, we_event = ''note.updated'', we_payload = ''{}'',
                we_created_at = i, we_delivered_at = None, we_attempts = 1\<rparr>)
       [1, 2, 3, 4, 5, 6, 7, 8, 9, 10, 11, 12]"

definition twelve_one_hook :: state where
  "twelve_one_hook =
     init_state\<lparr>webhooks := [hook_a], seq_webhooks := 1, webhook_events := twelve_rows,
       seq_webhook_events := 12, clock := 20\<rparr>"

definition twelve_two_hooks :: state where
  "twelve_two_hooks =
     init_state\<lparr>webhooks := [hook_a, hook_b], seq_webhooks := 2, webhook_events := twelve_rows,
       seq_webhook_events := 12, clock := 20\<rparr>"



text \<open>One subscription and an empty ledger; and a network on which the first two
  requests to any endpoint fail and every later one gets through.\<close>

definition one_hook :: state where
  "one_hook = init_state\<lparr>webhooks := [hook_a], seq_webhooks := 1\<rparr>"


definition never :: network where
  "never = (\<lambda>url k. False)"

text \<open>A request with an ftp URL, and one with an empty array of events.\<close>

definition req_ftp :: create_req where
  "req_ftp = \<lparr>body_url = Some ''ftp://a.example/hook'', body_secret = Some ''sa'',
              body_events = EvString ''note.updated''\<rparr>"

definition req_empty :: create_req where
  "req_empty = \<lparr>body_url = Some ''https://a.example/hook'', body_secret = Some ''sa'',
                body_events = EvArray []\<rparr>"





definition env_never :: env where
  "env_never = \<lparr>env_net = never, env_url_protocol = example_url_protocol, env_isProd = True\<rparr>"



section \<open>Properties of the signer\<close>

lemma length_hash_bytes: "length (hash_bytes h) = 32"
  by (cases h rule: hash_bytes.cases) (simp add: bytes_of_word_def)

lemma length_sha256: "length (sha256 m) = 32"
  by (simp add: sha256_def length_hash_bytes)

lemma length_hex_of_bytes: "length (hex_of_bytes bs) = 2 * length bs"
  by (induction bs) (simp_all add: hex_of_bytes_def)

lemma length_signWebhook: "length (signWebhook secret ts body) = 64"
  by (simp add: signWebhook_def digest_hex_def hmac_sha256_def Let_def length_hex_of_bytes length_sha256)

lemma hmac_key_block_zero:
  "length key < 64 \<Longrightarrow> hmac_key_block (key @ [0]) = hmac_key_block key"
proof -
  assume l: "length key < 64"
  then have "64 - length key = Suc (63 - length key)" by simp
  then have "replicate (64 - length key) (0::byte) = 0 # replicate (63 - length key) 0"
    by simp
  with l show ?thesis by (simp add: hmac_key_block_def)
qed

lemma signWebhook_unfold:
  "signWebhook secret ts body =
     hex_of_bytes (hmac_sha256 (bytes_of secret) (bytes_of (decimal ts @ ''.'' @ body)))"
  by (simp add: signWebhook_def createHmac_def update_def digest_hex_def bytes_of_def)

lemma hex_digit_inj10: "m < 10 \<Longrightarrow> n < 10 \<Longrightarrow> hex_digit m = hex_digit n \<Longrightarrow> m = n"
proof -
  assume a: "m < 10" "n < 10" "hex_digit m = hex_digit n"
  have m: "m \<in> {0,1,2,3,4,5,6,7,8,9}" using a(1) by auto
  have n: "n \<in> {0,1,2,3,4,5,6,7,8,9}" using a(2) by auto
  show ?thesis using m n a(3) by (auto simp: hex_digit_def)
qed

lemma hex_digit_not_dot: "n < 10 \<Longrightarrow> hex_digit n \<noteq> CHR ''.''"
proof -
  assume a: "n < 10"
  have n: "n \<in> {0,1,2,3,4,5,6,7,8,9}" using a by auto
  show ?thesis using n by (auto simp: hex_digit_def)
qed

lemma decimal_no_dot: "CHR ''.'' \<notin> set (decimal n)"
proof (induction n rule: decimal.induct)
  case (1 n)
  show ?case
  proof (cases "n < 10")
    case True
    then show ?thesis using hex_digit_not_dot[of n] by (subst decimal.simps) auto
  next
    case False
    have "n mod 10 < 10" by simp
    then have "hex_digit (n mod 10) \<noteq> CHR ''.''" by (rule hex_digit_not_dot)
    with False 1 show ?thesis by (subst decimal.simps) auto
  qed
qed

lemma decimal_nonempty: "decimal n \<noteq> []"
  by (subst decimal.simps) simp

lemma decimal_inj: "decimal m = decimal n \<Longrightarrow> m = n"
proof (induction m arbitrary: n rule: decimal.induct)
  case (1 m)
  show ?case
  proof (cases "m < 10")
    case mt: True
    show ?thesis
    proof (cases "n < 10")
      case True
      with mt 1(2) show ?thesis
        by (simp add: decimal.simps[of m] decimal.simps[of n] hex_digit_inj10)
    next
      case False
      with mt 1(2) decimal_nonempty[of "n div 10"] show ?thesis
        by (simp add: decimal.simps[of m] decimal.simps[of n])
    qed
  next
    case mf: False
    show ?thesis
    proof (cases "n < 10")
      case True
      with mf 1(2) decimal_nonempty[of "m div 10"] show ?thesis
        by (simp add: decimal.simps[of m] decimal.simps[of n])
    next
      case False
      with mf 1(2) have e: "decimal (m div 10) = decimal (n div 10)"
        and d: "hex_digit (m mod 10) = hex_digit (n mod 10)"
        by (simp_all add: decimal.simps[of m] decimal.simps[of n])
      from 1(1)[OF mf e] have "m div 10 = n div 10" .
      moreover from d have "m mod 10 = n mod 10" by (intro hex_digit_inj10) simp_all
      ultimately show ?thesis by (metis div_mult_mod_eq)
    qed
  qed
qed

lemma split_at_dot:
  "CHR ''.'' \<notin> set xs \<Longrightarrow> CHR ''.'' \<notin> set ys
     \<Longrightarrow> xs @ CHR ''.'' # b = ys @ CHR ''.'' # b' \<Longrightarrow> xs = ys \<and> b = b'"
proof (induction xs arbitrary: ys)
  case Nil
  then show ?case by (cases ys) auto
next
  case (Cons x xs)
  then show ?case by (cases ys) auto
qed

lemma signed_message_inj:
  "decimal t @ ''.'' @ b = decimal t' @ ''.'' @ b' \<longleftrightarrow> t = t' \<and> b = b'"
  using split_at_dot[OF decimal_no_dot decimal_no_dot, of t b t' b'] decimal_inj[of t t']
  by auto

text \<open>
  C9, as the signer is: \<open>signWebhook\<close> returns the hex-encoded HMAC-SHA256, keyed by the
  secret, of the decimal timestamp, a dot and the body, in this order; the result has 64
  characters; equal inputs give equal digests; the secret enters only through its 64-byte
  key block, so two secrets with the same key block sign alike; and the signed message
  determines the timestamp and the body (two different pairs are never signed as the same
  message). That different messages or key blocks give different digests is the collision
  resistance of SHA-256, which no theorem about the code provides.
\<close>

theorem signWebhook_is_hmac_of_concatenation:
  "signWebhook secret ts body =
     hex_of_bytes (hmac_sha256 (bytes_of secret) (bytes_of (decimal ts @ ''.'' @ body)))
   \<and> length (signWebhook secret ts body) = 64
   \<and> ((secret, ts, body) = (secret', ts', body')
        \<longrightarrow> signWebhook secret ts body = signWebhook secret' ts' body')
   \<and> (hmac_key_block (bytes_of secret) = hmac_key_block (bytes_of secret')
        \<longrightarrow> signWebhook secret ts body = signWebhook secret' ts body)
   \<and> (decimal ts @ ''.'' @ body = decimal ts' @ ''.'' @ body' \<longleftrightarrow> ts = ts' \<and> body = body')"
proof (intro conjI)
  show "signWebhook secret ts body =
     hex_of_bytes (hmac_sha256 (bytes_of secret) (bytes_of (decimal ts @ ''.'' @ body)))"
    by (rule signWebhook_unfold)
  show "length (signWebhook secret ts body) = 64" by (rule length_signWebhook)
  show "(secret, ts, body) = (secret', ts', body')
        \<longrightarrow> signWebhook secret ts body = signWebhook secret' ts' body'" by simp
  show "hmac_key_block (bytes_of secret) = hmac_key_block (bytes_of secret')
        \<longrightarrow> signWebhook secret ts body = signWebhook secret' ts body"
    by (simp add: signWebhook_unfold hmac_sha256_def)
  show "decimal ts @ ''.'' @ body = decimal ts' @ ''.'' @ body' \<longleftrightarrow> ts = ts' \<and> body = body'"
    by (rule signed_message_inj)
qed

theorem signWebhook_is_hmac_of_concatenation_witness:
  "hmac_key_block (bytes_of ''k'') = hmac_key_block (bytes_of [CHR ''k'', CHR 0x00])
   \<and> signWebhook ''k'' 1700000000000 ''{}'' = signWebhook [CHR ''k'', CHR 0x00] 1700000000000 ''{}''
   \<and> length (signWebhook ''k'' 1700000000000 ''{}'') = 64"
proof -
  have kb: "hmac_key_block (bytes_of ''k'') = hmac_key_block (bytes_of [CHR ''k'', CHR 0x00])"
    using hmac_key_block_zero[of "bytes_of ''k''"] by (simp add: bytes_of_def)
  from signWebhook_is_hmac_of_concatenation[of "''k''" 1700000000000 "''{}''" "[CHR ''k'', CHR 0x00]" 1700000000000 "''{}''"] kb
  show ?thesis by blast
qed

text \<open>
  C9 as stated says that changing any one input changes the digest. The secrets \<open>k\<close> and
  \<open>k\<close> followed by a zero byte differ and give the same digest for the same timestamp and
  body: RFC 2104 fills a short key with zero bytes.
\<close>

theorem signWebhook_secret_change_counterexample:
  "''k'' \<noteq> [CHR ''k'', CHR 0x00]
   \<and> signWebhook ''k'' 1700000000000 ''{}'' = signWebhook [CHR ''k'', CHR 0x00] 1700000000000 ''{}''"
proof -
  have kb: "hmac_key_block (bytes_of ''k'') = hmac_key_block (bytes_of [CHR ''k'', CHR 0x00])"
    using hmac_key_block_zero[of "bytes_of ''k''"] by (simp add: bytes_of_def)
  then show ?thesis by (simp add: signWebhook_unfold hmac_sha256_def)
qed

section \<open>Properties of the dispatcher\<close>

lemma dispatch_hook_fields [simp]:
  "webhooks (dispatch_hook net u ev pl h s) = webhooks s"
  "webhook_events (dispatch_hook net u ev pl h s) = webhook_events s"
  "seq_webhooks (dispatch_hook net u ev pl h s) = seq_webhooks s"
  "seq_webhook_events (dispatch_hook net u ev pl h s) = seq_webhook_events s"
  "clock (dispatch_hook net u ev pl h s) = clock s"
  by (simp_all add: dispatch_hook_def fetch_def Let_def)

lemma dispatch_hook_log:
  "\<exists>q. http_log (dispatch_hook net u ev pl h s) = http_log s @ [q]
     \<and> inflight (dispatch_hook net u ev pl h s) = inflight s @
          [\<lparr>pd_user_id = u, pd_event = ev, pd_payload = pl, pd_ok = rq_ok q\<rparr>]
     \<and> rq_url q = wh_url h \<and> rq_origin q = FromDispatch \<and> rq_event q = ev \<and> rq_body q = pl
     \<and> rq_ok q = net (wh_url h) (requests_to (wh_url h) (http_log s))"
  by (simp add: dispatch_hook_def fetch_def Let_def)

lemma dispatch_fold_fields [simp]:
  "webhooks (fold (dispatch_hook net u ev pl) hs s) = webhooks s"
  "webhook_events (fold (dispatch_hook net u ev pl) hs s) = webhook_events s"
  "seq_webhooks (fold (dispatch_hook net u ev pl) hs s) = seq_webhooks s"
  "seq_webhook_events (fold (dispatch_hook net u ev pl) hs s) = seq_webhook_events s"
  "clock (fold (dispatch_hook net u ev pl) hs s) = clock s"
  by (induction hs arbitrary: s; simp)+

lemma dispatch_fold_log:
  "\<exists>R. http_log (fold (dispatch_hook net u ev pl) hs s) = http_log s @ R
     \<and> inflight (fold (dispatch_hook net u ev pl) hs s) = inflight s @
          map (\<lambda>q. \<lparr>pd_user_id = u, pd_event = ev, pd_payload = pl, pd_ok = rq_ok q\<rparr>) R
     \<and> map rq_url R = map wh_url hs
     \<and> (\<forall>q \<in> set R. rq_origin q = FromDispatch \<and> rq_event q = ev \<and> rq_body q = pl)"
proof (induction hs arbitrary: s)
  case Nil
  show ?case by simp
next
  case (Cons h hs)
  obtain q where q: "http_log (dispatch_hook net u ev pl h s) = http_log s @ [q]"
    "inflight (dispatch_hook net u ev pl h s) = inflight s @
          [\<lparr>pd_user_id = u, pd_event = ev, pd_payload = pl, pd_ok = rq_ok q\<rparr>]"
    "rq_url q = wh_url h" "rq_origin q = FromDispatch" "rq_event q = ev" "rq_body q = pl"
    using dispatch_hook_log[of net u ev pl h s] by blast
  obtain R where R: "http_log (fold (dispatch_hook net u ev pl) hs (dispatch_hook net u ev pl h s))
        = http_log (dispatch_hook net u ev pl h s) @ R"
    "inflight (fold (dispatch_hook net u ev pl) hs (dispatch_hook net u ev pl h s))
        = inflight (dispatch_hook net u ev pl h s) @
          map (\<lambda>q. \<lparr>pd_user_id = u, pd_event = ev, pd_payload = pl, pd_ok = rq_ok q\<rparr>) R"
    "map rq_url R = map wh_url hs"
    "\<forall>q \<in> set R. rq_origin q = FromDispatch \<and> rq_event q = ev \<and> rq_body q = pl"
    using Cons.IH[of "dispatch_hook net u ev pl h s"] by blast
  show ?case
    by (rule exI[of _ "q # R"]) (simp add: q R)
qed

lemma dispatchWebhook_fields [simp]:
  "webhooks (dispatchWebhook net u ev d s) = webhooks s"
  "webhook_events (dispatchWebhook net u ev d s) = webhook_events s"
  "seq_webhooks (dispatchWebhook net u ev d s) = seq_webhooks s"
  "seq_webhook_events (dispatchWebhook net u ev d s) = seq_webhook_events s"
  "clock (dispatchWebhook net u ev d s) = clock s"
  by (simp_all add: dispatchWebhook_def Let_def)

lemma dispatchWebhook_log:
  "\<exists>R. http_log (dispatchWebhook net u ev d s) = http_log s @ R
     \<and> inflight (dispatchWebhook net u ev d s) = inflight s @
          map (\<lambda>q. \<lparr>pd_user_id = u, pd_event = ev, pd_payload = stringify_event ev d,
                     pd_ok = rq_ok q\<rparr>) R
     \<and> map rq_url R = map wh_url (active_hooks s u)
     \<and> (\<forall>q \<in> set R. rq_origin q = FromDispatch \<and> rq_event q = ev
           \<and> rq_body q = stringify_event ev d)"
  unfolding dispatchWebhook_def Let_def by (rule dispatch_fold_log)

lemma new_requests_append: "http_log s' = http_log s @ R \<Longrightarrow> new_requests s s' = R"
  by (simp add: new_requests_def)

lemma settle_head:
  "inflight s = p # ps \<Longrightarrow>
   settle 0 s =
     s\<lparr>inflight := ps,
       webhook_events := webhook_events s @
         [\<lparr>we_id = seq_webhook_events s + 1, we_user_id = pd_user_id p, we_event = pd_event p,
           we_payload = pd_payload p, we_created_at = clock s,
           we_delivered_at = (if pd_ok p then Some (clock s) else None), we_attempts = 1\<rparr>],
       seq_webhook_events := seq_webhook_events s + 1\<rparr>"
  by (simp add: settle_def insert_delivered_def insert_failed_def Let_def)

lemma settle_iter:
  "inflight s = ps \<Longrightarrow>
   \<exists>rows. webhook_events ((settle 0 ^^ length ps) s) = webhook_events s @ rows
     \<and> list_all2 (fresh_row (clock s)) ps rows
     \<and> inflight ((settle 0 ^^ length ps) s) = []
     \<and> webhooks ((settle 0 ^^ length ps) s) = webhooks s
     \<and> clock ((settle 0 ^^ length ps) s) = clock s
     \<and> http_log ((settle 0 ^^ length ps) s) = http_log s"
proof (induction ps arbitrary: s)
  case Nil
  then show ?case by simp
next
  case (Cons p ps)
  let ?s1 = "settle 0 s"
  have s1: "inflight ?s1 = ps" "clock ?s1 = clock s" "webhooks ?s1 = webhooks s"
    "http_log ?s1 = http_log s"
    by (simp_all add: settle_head[OF Cons.prems])
  obtain r where r: "webhook_events ?s1 = webhook_events s @ [r]" "fresh_row (clock s) p r"
    by (simp add: settle_head[OF Cons.prems] fresh_row_def)
  obtain rows where rows: "webhook_events ((settle 0 ^^ length ps) ?s1) = webhook_events ?s1 @ rows"
    "list_all2 (fresh_row (clock ?s1)) ps rows"
    "inflight ((settle 0 ^^ length ps) ?s1) = []"
    "webhooks ((settle 0 ^^ length ps) ?s1) = webhooks ?s1"
    "clock ((settle 0 ^^ length ps) ?s1) = clock ?s1"
    "http_log ((settle 0 ^^ length ps) ?s1) = http_log ?s1"
    using Cons.IH[OF s1(1)] by blast
  have "(settle 0 ^^ length (p # ps)) s = (settle 0 ^^ length ps) ?s1"
    by (simp add: funpow_swap1)
  then show ?case
    using rows r s1 by (intro exI[of _ "r # rows"]) simp
qed

lemma settle_all_rows:
  "\<exists>rows. webhook_events (settle_all s) = webhook_events s @ rows
     \<and> list_all2 (fresh_row (clock s)) (inflight s) rows
     \<and> inflight (settle_all s) = []
     \<and> webhooks (settle_all s) = webhooks s
     \<and> clock (settle_all s) = clock s
     \<and> http_log (settle_all s) = http_log s"
  unfolding settle_all_def by (rule settle_iter) simp

text \<open>
  C4. Dispatch, then let every attempt settle: after the rows of the attempts that were
  already in flight, the ledger has grown by exactly one row per resolved subscription
  (none when none is resolved), one request was sent to each resolved subscription's URL,
  and row \<open>i\<close> has \<open>attempts = 1\<close> and a delivery time if and only if request \<open>i\<close> got
  through (the outcome is the transport's alone: no HTTP status is looked at).
\<close>

theorem dispatch_ledger_postcondition:
  "\<exists>earlier rows.
       webhook_events (settle_all (dispatchWebhook net userId event payloadObj s))
         = webhook_events s @ earlier @ rows
     \<and> length earlier = length (inflight s)
     \<and> length rows = length (active_hooks s userId)
     \<and> length (new_requests s (dispatchWebhook net userId event payloadObj s))
          = length (active_hooks s userId)
     \<and> (active_hooks s userId = [] \<longrightarrow> rows = [])
     \<and> (\<forall>i < length (active_hooks s userId).
           rq_url (new_requests s (dispatchWebhook net userId event payloadObj s) ! i)
             = wh_url (active_hooks s userId ! i)
         \<and> we_user_id (rows ! i) = userId \<and> we_event (rows ! i) = event
         \<and> we_payload (rows ! i) = stringify_event event payloadObj
         \<and> we_attempts (rows ! i) = 1
         \<and> (we_delivered_at (rows ! i) \<noteq> None
              \<longleftrightarrow> rq_ok (new_requests s (dispatchWebhook net userId event payloadObj s) ! i)))"
proof -
  let ?s1 = "dispatchWebhook net userId event payloadObj s"
  let ?mk = "\<lambda>q. \<lparr>pd_user_id = userId, pd_event = event,
                   pd_payload = stringify_event event payloadObj, pd_ok = rq_ok q\<rparr>"
  let ?n = "length (inflight s)"
  obtain R where R: "http_log ?s1 = http_log s @ R" "inflight ?s1 = inflight s @ map ?mk R"
    "map rq_url R = map wh_url (active_hooks s userId)"
    using dispatchWebhook_log[of net userId event payloadObj s] by blast
  have nr: "new_requests s ?s1 = R" using R(1) by (rule new_requests_append)
  have len: "length R = length (active_hooks s userId)"
    using R(3) by (metis length_map)
  obtain all_rows where rows: "webhook_events (settle_all ?s1) = webhook_events ?s1 @ all_rows"
    "list_all2 (fresh_row (clock ?s1)) (inflight ?s1) all_rows"
    using settle_all_rows[of ?s1] by blast
  let ?earlier = "take ?n all_rows" and ?rows = "drop ?n all_rows"
  have lall: "length all_rows = ?n + length R"
    using list_all2_lengthD[OF rows(2)] R(2) by simp
  have la: "list_all2 (fresh_row (clock s)) (map ?mk R) ?rows"
    using list_all2_dropI[OF rows(2), of ?n] R(2) by simp
  have lr: "length ?rows = length R" using lall by simp
  have each: "fresh_row (clock s) (?mk (R ! i)) (?rows ! i)" if "i < length R" for i
    using la that by (simp add: list_all2_conv_all_nth)
  show ?thesis
  proof (rule exI[of _ ?earlier], rule exI[of _ ?rows], intro conjI allI impI)
    show "webhook_events (settle_all ?s1) = webhook_events s @ ?earlier @ ?rows"
      using rows(1) by simp
    show "length ?earlier = ?n" using lall by simp
    show "length ?rows = length (active_hooks s userId)" using lr len by simp
    show "length (new_requests s ?s1) = length (active_hooks s userId)" using nr len by simp
    show "?rows = []" if "active_hooks s userId = []" using that lall len by simp
  next
    fix i assume i: "i < length (active_hooks s userId)"
    then have iR: "i < length R" using len by simp
    show "rq_url (new_requests s ?s1 ! i) = wh_url (active_hooks s userId ! i)"
      using R(3) iR i nr by (metis nth_map)
    from each[OF iR]
    show "we_user_id (?rows ! i) = userId" "we_event (?rows ! i) = event"
      "we_payload (?rows ! i) = stringify_event event payloadObj" "we_attempts (?rows ! i) = 1"
      "we_delivered_at (?rows ! i) \<noteq> None \<longleftrightarrow> rq_ok (new_requests s ?s1 ! i)"
      by (simp_all add: fresh_row_def nr)
  qed
qed

lemma active_hooks_two_hooks: "active_hooks two_hooks 1 = [hook_a, hook_b]"
  by (simp add: active_hooks_def two_hooks_def init_state_def hook_a_def hook_b_def)

theorem dispatch_ledger_postcondition_witness:
  "inflight two_hooks = []
   \<and> active_hooks two_hooks 1 = [hook_a, hook_b]
   \<and> length (webhook_events (settle_all (dispatchWebhook only_a 1 ''note.updated'' ''{}'' two_hooks))) = 2
   \<and> map we_attempts (webhook_events (settle_all (dispatchWebhook only_a 1 ''note.updated'' ''{}'' two_hooks))) = [1, 1]
   \<and> map we_delivered_at (webhook_events (settle_all (dispatchWebhook only_a 1 ''note.updated'' ''{}'' two_hooks))) = [Some 0, None]"
proof -
  have q: "inflight two_hooks = []" by (simp add: two_hooks_def init_state_def)
  have e: "webhook_events two_hooks = []" by (simp add: two_hooks_def init_state_def)
  obtain earlier rows where rows:
    "webhook_events (settle_all (dispatchWebhook only_a 1 ''note.updated'' ''{}'' two_hooks))
       = webhook_events two_hooks @ earlier @ rows"
    "length earlier = length (inflight two_hooks)"
    "length rows = length (active_hooks two_hooks 1)"
    using dispatch_ledger_postcondition[of only_a 1 "''note.updated''" "''{}''" two_hooks] by blast
  have len: "length (webhook_events (settle_all (dispatchWebhook only_a 1 ''note.updated'' ''{}'' two_hooks))) = 2"
    using rows e q active_hooks_two_hooks by simp
  have ev: "map (\<lambda>r. (we_attempts r, we_delivered_at r))
      (webhook_events (settle_all (dispatchWebhook only_a 1 ''note.updated'' ''{}'' two_hooks)))
      = [(1, Some 0), (1, None)]"
    by (simp add: dispatchWebhook_def active_hooks_def dispatch_hook_def fetch_def Let_def
        settle_all_def settle_def insert_delivered_def insert_failed_def two_hooks_def
        init_state_def hook_a_def hook_b_def only_a_def requests_to_def numeral_2_eq_2)
  have a: "map we_attempts (webhook_events (settle_all (dispatchWebhook only_a 1 ''note.updated'' ''{}'' two_hooks))) = [1, 1]"
    using arg_cong[OF ev, of "map fst"] by (simp add: comp_def)
  have d: "map we_delivered_at (webhook_events (settle_all (dispatchWebhook only_a 1 ''note.updated'' ''{}'' two_hooks))) = [Some 0, None]"
    using arg_cong[OF ev, of "map snd"] by (simp add: comp_def)
  show ?thesis using q len a d active_hooks_two_hooks by simp
qed

section \<open>Properties of the retry worker\<close>

lemma row_advances_refl [simp]: "row_advances r r"
  by (simp add: row_advances_def)

lemma row_advances_trans: "row_advances a b \<Longrightarrow> row_advances b c \<Longrightarrow> row_advances a c"
  by (auto simp: row_advances_def)

lemma evolves_refl [simp]: "evolves s s"
  by (auto simp: evolves_def)

lemma evolves_same:
  "http_log s' = http_log s \<Longrightarrow> webhook_events s' = webhook_events s \<Longrightarrow> evolves s s'"
  by (auto simp: evolves_def)

lemma evolves_trans:
  assumes a: "evolves s s'" and b: "evolves s' s''"
  shows "evolves s s''"
proof -
  obtain R where R: "http_log s' = http_log s @ R" using a by (auto simp: evolves_def)
  obtain R' where R': "http_log s'' = http_log s' @ R'" using b by (auto simp: evolves_def)
  have n1: "new_requests s s' = R" using R by (rule new_requests_append)
  have n2: "new_requests s' s'' = R'" using R' by (rule new_requests_append)
  have n3: "new_requests s s'' = R @ R'" using R R' by (simp add: new_requests_def)
  have l1: "length (webhook_events s) \<le> length (webhook_events s')" using a by (simp add: evolves_def)
  have l2: "length (webhook_events s') \<le> length (webhook_events s'')" using b by (simp add: evolves_def)
  have rows: "row_advances (webhook_events s ! i) (webhook_events s'' ! i)
           \<and> (we_delivered_at (webhook_events s ! i) = None
                \<and> we_delivered_at (webhook_events s'' ! i) \<noteq> None
              \<longrightarrow> (\<exists>q \<in> set (new_requests s s'').
                     rq_origin q = FromRetry (we_id (webhook_events s ! i)) \<and> rq_ok q))"
    if i: "i < length (webhook_events s)" for i
  proof -
    have i': "i < length (webhook_events s')" using i l1 by simp
    have a1: "row_advances (webhook_events s ! i) (webhook_events s' ! i)"
      and a2: "we_delivered_at (webhook_events s ! i) = None
                \<and> we_delivered_at (webhook_events s' ! i) \<noteq> None
              \<longrightarrow> (\<exists>q \<in> set R. rq_origin q = FromRetry (we_id (webhook_events s ! i)) \<and> rq_ok q)"
      using a i by (simp_all add: evolves_def n1)
    have b1: "row_advances (webhook_events s' ! i) (webhook_events s'' ! i)"
      and b2: "we_delivered_at (webhook_events s' ! i) = None
                \<and> we_delivered_at (webhook_events s'' ! i) \<noteq> None
              \<longrightarrow> (\<exists>q \<in> set R'. rq_origin q = FromRetry (we_id (webhook_events s' ! i)) \<and> rq_ok q)"
      using b i' by (simp_all add: evolves_def n2)
    have ids: "we_id (webhook_events s' ! i) = we_id (webhook_events s ! i)"
      using a1 by (simp add: row_advances_def)
    show ?thesis
    proof (intro conjI impI)
      show "row_advances (webhook_events s ! i) (webhook_events s'' ! i)"
        using a1 b1 by (rule row_advances_trans)
      assume d: "we_delivered_at (webhook_events s ! i) = None
                \<and> we_delivered_at (webhook_events s'' ! i) \<noteq> None"
      show "\<exists>q \<in> set (new_requests s s'').
                     rq_origin q = FromRetry (we_id (webhook_events s ! i)) \<and> rq_ok q"
      proof (cases "we_delivered_at (webhook_events s' ! i) = None")
        case True
        with b2 d ids obtain q where "q \<in> set R'"
          "rq_origin q = FromRetry (we_id (webhook_events s ! i))" "rq_ok q" by auto
        then show ?thesis by (auto simp: n3)
      next
        case False
        with a2 d obtain q where "q \<in> set R"
          "rq_origin q = FromRetry (we_id (webhook_events s ! i))" "rq_ok q" by auto
        then show ?thesis by (auto simp: n3)
      qed
    qed
  qed
  show ?thesis
    unfolding evolves_def
  proof (intro conjI allI impI)
    show "\<exists>R. http_log s'' = http_log s @ R" using R R' by simp
    show "length (webhook_events s) \<le> length (webhook_events s'')" using l1 l2 by simp
  qed (use rows in blast)+
qed

lemma retry_row_fields [simp]:
  "webhooks (retry_row net row s) = webhooks s"
  "seq_webhooks (retry_row net row s) = seq_webhooks s"
  "seq_webhook_events (retry_row net row s) = seq_webhook_events s"
  "clock (retry_row net row s) = clock s"
  "inflight (retry_row net row s) = inflight s"
  by (simp_all add: retry_row_def fetch_def Let_def update_delivered_def update_failed_def)

lemma retry_row_effect:
  "\<exists>q. http_log (retry_row net row s) = http_log s @ [q]
     \<and> rq_origin q = FromRetry (we_id (fst row)) \<and> rq_url q = wh_url (snd row)
     \<and> rq_event q = we_event (fst row) \<and> rq_body q = we_payload (fst row)
     \<and> rq_ok q = net (wh_url (snd row)) (requests_to (wh_url (snd row)) (http_log s))
     \<and> webhook_events (retry_row net row s) =
         map (\<lambda>r. if we_id r = we_id (fst row)
                   then r\<lparr>we_delivered_at := (if rq_ok q then Some (clock s) else we_delivered_at r),
                          we_attempts := we_attempts r + 1\<rparr>
                   else r) (webhook_events s)"
  by (simp add: retry_row_def fetch_def Let_def update_delivered_def update_failed_def)

lemma evolves_retry_row: "evolves s (retry_row net row s)"
proof -
  obtain q where q: "http_log (retry_row net row s) = http_log s @ [q]"
    "rq_origin q = FromRetry (we_id (fst row))"
    "webhook_events (retry_row net row s) =
         map (\<lambda>r. if we_id r = we_id (fst row)
                   then r\<lparr>we_delivered_at := (if rq_ok q then Some (clock s) else we_delivered_at r),
                          we_attempts := we_attempts r + 1\<rparr>
                   else r) (webhook_events s)"
    using retry_row_effect[of net row s] by blast
  have n: "new_requests s (retry_row net row s) = [q]" using q(1) by (rule new_requests_append)
  show ?thesis
    unfolding evolves_def n q(3)
    using q(1,2) by (auto simp: row_advances_def)
qed

lemma evolves_fold_retry: "evolves s (fold (retry_row net) rows s)"
proof (induction rows arbitrary: s)
  case Nil
  show ?case by simp
next
  case (Cons row rows)
  have "evolves s (retry_row net row s)" by (rule evolves_retry_row)
  moreover have "evolves (retry_row net row s) (fold (retry_row net) rows (retry_row net row s))"
    by (rule Cons.IH)
  ultimately show ?case by (simp add: evolves_trans)
qed

lemma evolves_tick: "evolves s (worker_tick net s)"
  unfolding worker_tick_def by (rule evolves_fold_retry)

lemma settle_effect:
  "i < length (inflight s) \<Longrightarrow>
   \<exists>r. webhook_events (settle i s) = webhook_events s @ [r]
     \<and> fresh_row (clock s) (inflight s ! i) r
     \<and> we_id r = seq_webhook_events s + 1
     \<and> inflight (settle i s) = take i (inflight s) @ drop (Suc i) (inflight s)
     \<and> http_log (settle i s) = http_log s \<and> webhooks (settle i s) = webhooks s
     \<and> clock (settle i s) = clock s
     \<and> seq_webhook_events (settle i s) = seq_webhook_events s + 1"
  by (simp add: settle_def insert_delivered_def insert_failed_def Let_def fresh_row_def)

lemma settle_noop: "\<not> i < length (inflight s) \<Longrightarrow> settle i s = s"
  by (simp add: settle_def)

lemma evolves_settle: "evolves s (settle i s)"
proof (cases "i < length (inflight s)")
  case True
  then obtain r where "webhook_events (settle i s) = webhook_events s @ [r]"
    "http_log (settle i s) = http_log s"
    using settle_effect[of i s] by blast
  then show ?thesis by (auto simp: evolves_def nth_append)
next
  case False
  then show ?thesis by (simp add: settle_noop)
qed

lemma evolves_dispatch: "evolves s (dispatchWebhook net u ev d s)"
proof -
  obtain R where "http_log (dispatchWebhook net u ev d s) = http_log s @ R"
    using dispatchWebhook_log[of net u ev d s] by blast
  then show ?thesis by (auto simp: evolves_def)
qed

lemma insert_webhook_fields [simp]:
  "webhook_events (insert_webhook u url sec evs s) = webhook_events s"
  "http_log (insert_webhook u url sec evs s) = http_log s"
  "inflight (insert_webhook u url sec evs s) = inflight s"
  "seq_webhook_events (insert_webhook u url sec evs s) = seq_webhook_events s"
  "clock (insert_webhook u url sec evs s) = clock s"
  by (simp_all add: insert_webhook_def)

lemma createWebhook_fields [simp]:
  "webhook_events (snd (createWebhook up isProd u br req s)) = webhook_events s"
  "http_log (snd (createWebhook up isProd u br req s)) = http_log s"
  "inflight (snd (createWebhook up isProd u br req s)) = inflight s"
  "seq_webhook_events (snd (createWebhook up isProd u br req s)) = seq_webhook_events s"
  "clock (snd (createWebhook up isProd u br req s)) = clock s"
  by (simp_all add: createWebhook_def Let_def split: option.splits)

lemma createUserWebhook_fields [simp]:
  "webhook_events (snd (createUserWebhook up isProd u wj req s)) = webhook_events s"
  "http_log (snd (createUserWebhook up isProd u wj req s)) = http_log s"
  "inflight (snd (createUserWebhook up isProd u wj req s)) = inflight s"
  "seq_webhook_events (snd (createUserWebhook up isProd u wj req s)) = seq_webhook_events s"
  "clock (snd (createUserWebhook up isProd u wj req s)) = clock s"
  by (simp_all add: createUserWebhook_def Let_def split: option.splits)

lemma deleteWebhook_fields [simp]:
  "webhook_events (deleteWebhook u h s) = webhook_events s"
  "http_log (deleteWebhook u h s) = http_log s"
  "inflight (deleteWebhook u h s) = inflight s"
  "seq_webhook_events (deleteWebhook u h s) = seq_webhook_events s"
  "clock (deleteWebhook u h s) = clock s"
  by (simp_all add: deleteWebhook_def)

lemma advance_fields [simp]:
  "webhook_events (advance d s) = webhook_events s"
  "http_log (advance d s) = http_log s"
  "inflight (advance d s) = inflight s"
  "webhooks (advance d s) = webhooks s"
  "seq_webhook_events (advance d s) = seq_webhook_events s"
  by (simp_all add: advance_def)

lemma evolves_exec: "evolves s (exec e st s)"
  by (cases st)
     (simp_all add: evolves_dispatch evolves_settle evolves_tick evolves_same)

lemma evolves_run: "evolves s (run e steps s)"
  unfolding run_def
proof (induction steps arbitrary: s)
  case Nil
  show ?case by simp
next
  case (Cons st steps)
  have "evolves s (exec e st s)" by (rule evolves_exec)
  moreover have "evolves (exec e st s) (fold (exec e) steps (exec e st s))" by (rule Cons.IH)
  ultimately show ?case by (simp add: evolves_trans)
qed

text \<open>
  C7. Over any run of the system (dispatches, settling attempts, worker ticks, registry
  changes, time passing) every row of the ledger stays in place with its identity and
  payload, its attempts never decrease, a delivery time once set stays set, and a row
  that went from undelivered to delivered has a retry of that row that got through among
  the requests of the run. The row written for a first attempt has \<open>attempts = 1\<close> and a
  delivery time exactly when that attempt got through.
\<close>

theorem ledger_invariant:
  "length (webhook_events s) \<le> length (webhook_events (run e steps s))
   \<and> (\<forall>i < length (webhook_events s).
         we_id (webhook_events (run e steps s) ! i) = we_id (webhook_events s ! i)
       \<and> we_payload (webhook_events (run e steps s) ! i) = we_payload (webhook_events s ! i)
       \<and> we_attempts (webhook_events s ! i) \<le> we_attempts (webhook_events (run e steps s) ! i)
       \<and> (we_delivered_at (webhook_events s ! i) \<noteq> None
            \<longrightarrow> we_delivered_at (webhook_events (run e steps s) ! i) \<noteq> None)
       \<and> (we_delivered_at (webhook_events s ! i) = None
            \<and> we_delivered_at (webhook_events (run e steps s) ! i) \<noteq> None
          \<longrightarrow> (\<exists>q \<in> set (new_requests s (run e steps s)).
                 rq_origin q = FromRetry (we_id (webhook_events s ! i)) \<and> rq_ok q)))
   \<and> (j < length (inflight s)
        \<longrightarrow> (\<exists>r. webhook_events (settle j s) = webhook_events s @ [r] \<and> we_attempts r = 1
               \<and> (we_delivered_at r \<noteq> None \<longleftrightarrow> pd_ok (inflight s ! j))))"
proof -
  have ev: "evolves s (run e steps s)" by (rule evolves_run)
  have st: "\<exists>r. webhook_events (settle j s) = webhook_events s @ [r] \<and> we_attempts r = 1
               \<and> (we_delivered_at r \<noteq> None \<longleftrightarrow> pd_ok (inflight s ! j))"
    if jl: "j < length (inflight s)"
  proof -
    obtain r where "webhook_events (settle j s) = webhook_events s @ [r]"
      "fresh_row (clock s) (inflight s ! j) r"
      using jl settle_effect[of j s] by blast
    then show ?thesis by (intro exI[of _ r]) (simp add: fresh_row_def)
  qed
  show ?thesis
    using ev st unfolding evolves_def row_advances_def by blast
qed

lemma select_one_pending:
  "select_undelivered one_pending = [(hd (webhook_events one_pending), hook_a)]"
  by (simp add: select_undelivered_def one_pending_def init_state_def retry_eligible_def
      MAX_RETRY_ATTEMPTS_def BATCH_SIZE_def hook_a_def)

theorem ledger_invariant_witness:
  "0 < length (webhook_events one_pending) \<and> 0 < length (inflight one_pending)
   \<and> we_delivered_at (webhook_events one_pending ! 0) = None
   \<and> we_delivered_at (webhook_events (run env_a [Tick] one_pending) ! 0) \<noteq> None
   \<and> we_attempts (webhook_events (run env_a [Tick] one_pending) ! 0) = 2
   \<and> (\<exists>q \<in> set (new_requests one_pending (run env_a [Tick] one_pending)).
         rq_origin q = FromRetry 1 \<and> rq_ok q)
   \<and> (\<exists>r. webhook_events (settle 0 one_pending) = webhook_events one_pending @ [r]
         \<and> we_attempts r = 1 \<and> we_delivered_at r \<noteq> None)"
proof -
  have l: "0 < length (webhook_events one_pending)" "0 < length (inflight one_pending)"
    "we_delivered_at (webhook_events one_pending ! 0) = None"
    "we_id (webhook_events one_pending ! 0) = 1" "pd_ok (inflight one_pending ! 0)"
    by (simp_all add: one_pending_def init_state_def)
  have t: "map (\<lambda>r. (we_attempts r, we_delivered_at r)) (webhook_events (run env_a [Tick] one_pending))
             = [(2, Some 0)]"
    by (simp add: run_def worker_tick_def select_one_pending retry_row_def fetch_def Let_def
        update_delivered_def update_failed_def env_a_def only_a_def hook_a_def requests_to_def)
       (simp add: one_pending_def init_state_def)
  have t1: "we_delivered_at (webhook_events (run env_a [Tick] one_pending) ! 0) \<noteq> None"
    "we_attempts (webhook_events (run env_a [Tick] one_pending) ! 0) = 2"
    using t by (auto simp: map_eq_Cons_conv)
  note inv = ledger_invariant[of one_pending env_a "[Tick]" 0]
  from inv l t1 have ex: "\<exists>q \<in> set (new_requests one_pending (run env_a [Tick] one_pending)).
         rq_origin q = FromRetry 1 \<and> rq_ok q"
    by (metis (no_types, lifting))
  from inv l have st: "\<exists>r. webhook_events (settle 0 one_pending) = webhook_events one_pending @ [r]
         \<and> we_attempts r = 1 \<and> we_delivered_at r \<noteq> None"
    by blast
  show ?thesis using l t1 ex st by simp
qed

section \<open>Rows are written after the first attempt\<close>

lemma retry_row_length [simp]:
  "length (webhook_events (retry_row net row s)) = length (webhook_events s)"
  using retry_row_effect[of net row s] by auto

lemma retry_row_dispatch_count [simp]:
  "filter (\<lambda>q. rq_origin q = FromDispatch) (http_log (retry_row net row s))
     = filter (\<lambda>q. rq_origin q = FromDispatch) (http_log s)"
  using retry_row_effect[of net row s] by auto

lemma retry_row_attempted:
  "\<forall>r \<in> set (webhook_events s). 1 \<le> we_attempts r
   \<Longrightarrow> \<forall>r \<in> set (webhook_events (retry_row net row s)). 1 \<le> we_attempts r"
  using retry_row_effect[of net row s] by auto

lemma accounted_fold_retry:
  "first_attempts_accounted s \<Longrightarrow> first_attempts_accounted (fold (retry_row net) rows s)"
proof (induction rows arbitrary: s)
  case Nil
  then show ?case by simp
next
  case (Cons row rows)
  have "first_attempts_accounted (retry_row net row s)"
    using Cons.prems retry_row_attempted[of s net row]
    by (simp add: first_attempts_accounted_def)
  then show ?case using Cons.IH by simp
qed

lemma accounted_dispatch:
  assumes "first_attempts_accounted s"
  shows "first_attempts_accounted (dispatchWebhook net u ev d s)"
proof -
  obtain R where R: "http_log (dispatchWebhook net u ev d s) = http_log s @ R"
    "inflight (dispatchWebhook net u ev d s) = inflight s @
          map (\<lambda>q. \<lparr>pd_user_id = u, pd_event = ev, pd_payload = stringify_event ev d,
                     pd_ok = rq_ok q\<rparr>) R"
    "\<forall>q \<in> set R. rq_origin q = FromDispatch \<and> rq_event q = ev
           \<and> rq_body q = stringify_event ev d"
    using dispatchWebhook_log[of net u ev d s] by blast
  have "filter (\<lambda>q. rq_origin q = FromDispatch) R = R"
    using R(3) by (simp add: filter_id_conv)
  then show ?thesis using assms R(1,2) by (simp add: first_attempts_accounted_def)
qed

lemma accounted_settle:
  assumes "first_attempts_accounted s"
  shows "first_attempts_accounted (settle i s)"
proof (cases "i < length (inflight s)")
  case True
  then obtain r where r: "webhook_events (settle i s) = webhook_events s @ [r]"
    "fresh_row (clock s) (inflight s ! i) r"
    "inflight (settle i s) = take i (inflight s) @ drop (Suc i) (inflight s)"
    "http_log (settle i s) = http_log s"
    using settle_effect[of i s] by blast
  have "length (inflight (settle i s)) + 1 = length (inflight s)"
    using True r(3) by simp
  then show ?thesis using assms r(1,2,4) by (auto simp: first_attempts_accounted_def fresh_row_def)
next
  case False
  then show ?thesis using assms by (simp add: settle_noop)
qed

lemma accounted_exec:
  "first_attempts_accounted s \<Longrightarrow> first_attempts_accounted (exec e st s)"
proof (cases st)
  case (Dispatch u ev d)
  assume "first_attempts_accounted s"
  then show ?thesis using Dispatch by (simp add: accounted_dispatch)
next
  case (Settle i)
  assume "first_attempts_accounted s"
  then show ?thesis using Settle by (simp add: accounted_settle)
next
  case Tick
  assume "first_attempts_accounted s"
  then show ?thesis using Tick by (simp add: worker_tick_def accounted_fold_retry)
qed (simp_all add: first_attempts_accounted_def)

lemma accounted_run:
  "first_attempts_accounted s \<Longrightarrow> first_attempts_accounted (run e steps s)"
  unfolding run_def by (induction steps arbitrary: s) (simp_all add: accounted_exec)

lemma accounted_init: "first_attempts_accounted init_state"
  by (simp add: first_attempts_accounted_def init_state_def)

text \<open>
  C10. The dispatcher itself writes no row: a row appears only when an attempt in flight
  settles, and then with \<open>attempts = 1\<close>. So in every state reachable from the empty system
  no row has \<open>attempts = 0\<close>, and the rows together with the attempts still in flight are
  exactly the first attempts sent: an attempt in flight has no row yet.
\<close>

theorem rows_written_after_first_attempt:
  "webhook_events (dispatchWebhook net u ev d s) = webhook_events s
   \<and> (i < length (inflight s)
        \<longrightarrow> (\<exists>r. webhook_events (settle i s) = webhook_events s @ [r] \<and> we_attempts r = 1
               \<and> length (inflight (settle i s)) + 1 = length (inflight s)))
   \<and> (\<forall>r \<in> set (webhook_events (run e steps init_state)). 1 \<le> we_attempts r)
   \<and> length (webhook_events (run e steps init_state)) + length (inflight (run e steps init_state))
       = length (filter (\<lambda>q. rq_origin q = FromDispatch) (http_log (run e steps init_state)))"
proof (intro conjI impI)
  show "webhook_events (dispatchWebhook net u ev d s) = webhook_events s" by simp
next
  assume i: "i < length (inflight s)"
  then obtain r where r: "webhook_events (settle i s) = webhook_events s @ [r]"
    "fresh_row (clock s) (inflight s ! i) r"
    "inflight (settle i s) = take i (inflight s) @ drop (Suc i) (inflight s)"
    using settle_effect[of i s] by blast
  have "length (inflight (settle i s)) + 1 = length (inflight s)" using i r(3) by simp
  then show "\<exists>r. webhook_events (settle i s) = webhook_events s @ [r] \<and> we_attempts r = 1
               \<and> length (inflight (settle i s)) + 1 = length (inflight s)"
    using r(1,2) by (auto simp: fresh_row_def)
next
  have a: "first_attempts_accounted (run e steps init_state)"
    using accounted_init by (rule accounted_run)
  show "\<forall>r \<in> set (webhook_events (run e steps init_state)). 1 \<le> we_attempts r"
    using a by (simp add: first_attempts_accounted_def)
  show "length (webhook_events (run e steps init_state)) + length (inflight (run e steps init_state))
       = length (filter (\<lambda>q. rq_origin q = FromDispatch) (http_log (run e steps init_state)))"
    using a by (simp add: first_attempts_accounted_def)
qed

lemma create_a:
  "createUserWebhook example_url_protocol True 1 True req_a init_state
    = (JsonSuccess, init_state\<lparr>webhooks := [hook_a], seq_webhooks := 1\<rparr>)"
  by code_simp

theorem rows_written_after_first_attempt_witness:
  "0 < length (inflight one_pending)
   \<and> length (webhook_events (settle 0 one_pending)) = 2
   \<and> map we_attempts (webhook_events
        (run env_prod [CreateUserWebhook 1 True req_a, Dispatch 1 ''note.updated'' ''{}'', Settle 0]
           init_state)) = [1]
   \<and> inflight (run env_prod [CreateUserWebhook 1 True req_a, Dispatch 1 ''note.updated'' ''{}'']
           init_state) \<noteq> []
   \<and> webhook_events (run env_prod [CreateUserWebhook 1 True req_a, Dispatch 1 ''note.updated'' ''{}'']
           init_state) = []"
proof -
  let ?steps = "[CreateUserWebhook 1 True req_a, Dispatch 1 ''note.updated'' ''{}'', Settle 0]"
  have i: "0 < length (inflight one_pending)" "length (webhook_events one_pending) = 1"
    by (simp_all add: one_pending_def init_state_def)
  note t = rows_written_after_first_attempt[of only_a 1 "''x''" "''{}''" one_pending 0 env_prod ?steps]
  from t i obtain r where "webhook_events (settle 0 one_pending) = webhook_events one_pending @ [r]"
    by blast
  then have l: "length (webhook_events (settle 0 one_pending)) = 2" using i by simp
  have e: "map we_attempts (webhook_events (run env_prod ?steps init_state)) = [1]"
    by (simp add: run_def env_prod_def create_a create_a[unfolded One_nat_def])
       (simp add: dispatchWebhook_def active_hooks_def dispatch_hook_def fetch_def Let_def
          settle_def insert_delivered_def insert_failed_def init_state_def hook_a_def)
  have f: "inflight (run env_prod [CreateUserWebhook 1 True req_a, Dispatch 1 ''note.updated'' ''{}'']
           init_state) \<noteq> []"
    "webhook_events (run env_prod [CreateUserWebhook 1 True req_a, Dispatch 1 ''note.updated'' ''{}'']
           init_state) = []"
    by (simp_all add: run_def env_prod_def create_a create_a[unfolded One_nat_def])
       (simp_all add: dispatchWebhook_def active_hooks_def dispatch_hook_def fetch_def Let_def
          init_state_def hook_a_def)
  show ?thesis using i l e f by simp
qed

section \<open>Properties of the selection\<close>

lemma eligible_pairs:
  "filter retry_eligible (List.product es ws) =
     concat (map (\<lambda>e. if pending_row e
                       then map (Pair e) (filter (\<lambda>w. wh_user_id w = we_user_id e \<and> wh_active w = 1) ws)
                       else []) es)"
proof (induction es)
  case Nil
  show ?case by simp
next
  case (Cons e es)
  have "filter retry_eligible (map (Pair e) ws) =
        (if pending_row e
         then map (Pair e) (filter (\<lambda>w. wh_user_id w = we_user_id e \<and> wh_active w = 1) ws)
         else [])"
    by (induction ws) (auto simp: retry_eligible_def pending_row_def)
  then show ?case using Cons.IH by simp
qed

lemma select_subset:
  "set (select_undelivered s)
     \<subseteq> {p \<in> set (webhook_events s) \<times> set (webhooks s). retry_eligible p}"
proof -
  have "set (select_undelivered s)
      \<subseteq> set (sort_key (\<lambda>(we, w). we_created_at we)
            (filter retry_eligible (List.product (webhook_events s) (webhooks s))))"
    unfolding select_undelivered_def by (rule set_take_subset)
  then show ?thesis by auto
qed

lemma select_member:
  "(we, w) \<in> set (select_undelivered s) \<Longrightarrow>
     we \<in> set (webhook_events s) \<and> w \<in> set (webhooks s) \<and> pending_row we
     \<and> wh_user_id w = we_user_id we \<and> wh_active w = 1"
  using select_subset[of s] by (auto simp: retry_eligible_def pending_row_def)

lemma select_length: "length (select_undelivered s) \<le> BATCH_SIZE"
  by (simp add: select_undelivered_def)

lemma select_sorted: "sorted (map (we_created_at \<circ> fst) (select_undelivered s))"
proof -
  have eq: "(we_created_at \<circ> fst) = (\<lambda>(we, w). we_created_at we)"
    by (auto simp: fun_eq_iff)
  have "sorted (map (\<lambda>(we, w). we_created_at we)
          (sort_key (\<lambda>(we, w). we_created_at we)
             (filter retry_eligible (List.product (webhook_events s) (webhooks s)))))"
    by (rule sorted_sort_key)
  then show ?thesis
    unfolding select_undelivered_def eq take_map[symmetric] by (rule sorted_wrt_take)
qed

lemma select_oldest:
  assumes p: "p \<in> set (List.product (webhook_events s) (webhooks s))" "retry_eligible p"
    "p \<notin> set (select_undelivered s)"
    and q: "q \<in> set (select_undelivered s)"
  shows "we_created_at (fst q) \<le> we_created_at (fst p)"
proof -
  let ?k = "\<lambda>(we, w). we_created_at we"
  let ?all = "sort_key ?k (filter retry_eligible (List.product (webhook_events s) (webhooks s)))"
  have split: "?all = take BATCH_SIZE ?all @ drop BATCH_SIZE ?all" by simp
  have "p \<in> set ?all" using p(1,2) by simp
  then have "p \<in> set (take BATCH_SIZE ?all) \<or> p \<in> set (drop BATCH_SIZE ?all)"
    by (metis split set_append Un_iff)
  then have pd: "p \<in> set (drop BATCH_SIZE ?all)"
    using p(3) by (simp add: select_undelivered_def)
  have qt: "q \<in> set (take BATCH_SIZE ?all)" using q by (simp add: select_undelivered_def)
  have "sorted (map ?k ?all)" by (rule sorted_sort_key)
  then have "sorted (map ?k (take BATCH_SIZE ?all) @ map ?k (drop BATCH_SIZE ?all))"
    by (metis split map_append)
  then have "\<forall>x \<in> set (map ?k (take BATCH_SIZE ?all)). \<forall>y \<in> set (map ?k (drop BATCH_SIZE ?all)). x \<le> y"
    by (simp add: sorted_append)
  then have "?k q \<le> ?k p" using pd qt by auto
  then show ?thesis by (simp add: case_prod_beta)
qed

lemma map_fst_insort_key:
  "map fst (insort_key (\<lambda>p. f (fst p)) x xs) = insort_key f (fst x) (map fst xs)"
  by (induction xs) auto

lemma map_fst_sort_key:
  "map fst (sort_key (\<lambda>p. f (fst p)) xs) = sort_key f (map fst xs)"
  by (induction xs) (simp_all add: map_fst_insort_key)

lemma select_single_hook:
  assumes one: "\<forall>we \<in> set (webhook_events s). length (active_hooks s (we_user_id we)) = 1"
  shows "map fst (select_undelivered s)
           = take BATCH_SIZE (sort_key we_created_at (filter pending_row (webhook_events s)))"
proof -
  have k: "(\<lambda>(we, w). we_created_at we) = (\<lambda>p. we_created_at (fst p))"
    by (auto simp: fun_eq_iff)
  have "map fst (concat (map (\<lambda>e. if pending_row e
                       then map (Pair e) (filter (\<lambda>w. wh_user_id w = we_user_id e \<and> wh_active w = 1) (webhooks s))
                       else []) es)) = filter pending_row es"
    if "\<forall>we \<in> set es. length (active_hooks s (we_user_id we)) = 1" for es
    using that
  proof (induction es)
    case Nil
    show ?case by simp
  next
    case (Cons e es)
    have "length (filter (\<lambda>w. wh_user_id w = we_user_id e \<and> wh_active w = 1) (webhooks s)) = 1"
      using Cons.prems by (simp add: active_hooks_def)
    then obtain w where "filter (\<lambda>w. wh_user_id w = we_user_id e \<and> wh_active w = 1) (webhooks s) = [w]"
      by (auto simp: length_Suc_conv)
    then show ?case using Cons by simp
  qed
  from this[OF one]
  have "map fst (filter retry_eligible (List.product (webhook_events s) (webhooks s)))
          = filter pending_row (webhook_events s)"
    by (simp add: eligible_pairs)
  then show ?thesis
    unfolding select_undelivered_def k take_map[symmetric] map_fst_sort_key by simp
qed

lemma fold_retry_log:
  "\<exists>R. http_log (fold (retry_row net) rows s) = http_log s @ R
     \<and> map (\<lambda>q. (rq_origin q, rq_url q, rq_event q, rq_body q)) R
         = map (\<lambda>row. (FromRetry (we_id (fst row)), wh_url (snd row), we_event (fst row),
                        we_payload (fst row))) rows"
proof (induction rows arbitrary: s)
  case Nil
  show ?case by simp
next
  case (Cons row rows)
  obtain q where q: "http_log (retry_row net row s) = http_log s @ [q]"
    "rq_origin q = FromRetry (we_id (fst row))" "rq_url q = wh_url (snd row)"
    "rq_event q = we_event (fst row)" "rq_body q = we_payload (fst row)"
    using retry_row_effect[of net row s] by blast
  obtain R where R: "http_log (fold (retry_row net) rows (retry_row net row s))
        = http_log (retry_row net row s) @ R"
    "map (\<lambda>q. (rq_origin q, rq_url q, rq_event q, rq_body q)) R
         = map (\<lambda>row. (FromRetry (we_id (fst row)), wh_url (snd row), we_event (fst row),
                        we_payload (fst row))) rows"
    using Cons.IH[of "retry_row net row s"] by blast
  show ?case by (rule exI[of _ "q # R"]) (simp add: q R)
qed

lemma tick_requests:
  "map (\<lambda>q. (rq_origin q, rq_url q, rq_event q, rq_body q)) (new_requests s (worker_tick net s))
     = map (\<lambda>row. (FromRetry (we_id (fst row)), wh_url (snd row), we_event (fst row),
                    we_payload (fst row))) (select_undelivered s)"
proof -
  obtain R where R: "http_log (worker_tick net s) = http_log s @ R"
    "map (\<lambda>q. (rq_origin q, rq_url q, rq_event q, rq_body q)) R
         = map (\<lambda>row. (FromRetry (we_id (fst row)), wh_url (snd row), we_event (fst row),
                        we_payload (fst row))) (select_undelivered s)"
    unfolding worker_tick_def using fold_retry_log[of net "select_undelivered s" s] by blast
  show ?thesis using new_requests_append[OF R(1)] R(2) by simp
qed



text \<open>
  C3, as the query selects: at most \<open>BATCH_SIZE = 10\<close> pairs of a row and a subscription,
  each with the row undelivered and below \<open>MAX_RETRY_ATTEMPTS = 5\<close> attempts and the
  subscription an active one of the row's user; the pairs come oldest row first, and no
  eligible pair left out is older than a selected one. When every row's user has exactly
  one active subscription, the selected rows are exactly the (up to) ten oldest
  retryable rows. (Creation times are taken distinct: SQL leaves the order of ties open.)
\<close>

theorem tick_selection:
  "BATCH_SIZE = 10 \<and> MAX_RETRY_ATTEMPTS = 5
   \<and> length (select_undelivered s) \<le> BATCH_SIZE
   \<and> (\<forall>row \<in> set (select_undelivered s).
         fst row \<in> set (webhook_events s) \<and> snd row \<in> set (webhooks s)
         \<and> we_delivered_at (fst row) = None \<and> we_attempts (fst row) < MAX_RETRY_ATTEMPTS
         \<and> wh_user_id (snd row) = we_user_id (fst row) \<and> wh_active (snd row) = 1)
   \<and> sorted (map (we_created_at \<circ> fst) (select_undelivered s))
   \<and> (\<forall>p \<in> set (List.product (webhook_events s) (webhooks s)).
         retry_eligible p \<and> p \<notin> set (select_undelivered s)
         \<longrightarrow> (\<forall>q \<in> set (select_undelivered s). we_created_at (fst q) \<le> we_created_at (fst p)))
   \<and> ((\<forall>we \<in> set (webhook_events s). length (active_hooks s (we_user_id we)) = 1)
        \<and> distinct (map we_created_at (filter pending_row (webhook_events s)))
       \<longrightarrow> map fst (select_undelivered s)
             = take BATCH_SIZE (sort_key we_created_at (filter pending_row (webhook_events s))))"
proof (intro conjI ballI impI)
  show "BATCH_SIZE = 10" by (simp add: BATCH_SIZE_def)
  show "MAX_RETRY_ATTEMPTS = 5" by (simp add: MAX_RETRY_ATTEMPTS_def)
  show "length (select_undelivered s) \<le> BATCH_SIZE" by (rule select_length)
  show "sorted (map (we_created_at \<circ> fst) (select_undelivered s))" by (rule select_sorted)
next
  fix row assume "row \<in> set (select_undelivered s)"
  then have "(fst row, snd row) \<in> set (select_undelivered s)" by simp
  from select_member[OF this]
  show "fst row \<in> set (webhook_events s)" "snd row \<in> set (webhooks s)"
    "we_delivered_at (fst row) = None" "we_attempts (fst row) < MAX_RETRY_ATTEMPTS"
    "wh_user_id (snd row) = we_user_id (fst row)" "wh_active (snd row) = 1"
    by (simp_all add: pending_row_def)
next
  fix p q
  assume "p \<in> set (List.product (webhook_events s) (webhooks s))"
    "retry_eligible p \<and> p \<notin> set (select_undelivered s)" "q \<in> set (select_undelivered s)"
  then show "we_created_at (fst q) \<le> we_created_at (fst p)"
    using select_oldest[of p s q] by blast
next
  assume "(\<forall>we \<in> set (webhook_events s). length (active_hooks s (we_user_id we)) = 1)
        \<and> distinct (map we_created_at (filter pending_row (webhook_events s)))"
  then show "map fst (select_undelivered s)
             = take BATCH_SIZE (sort_key we_created_at (filter pending_row (webhook_events s)))"
    using select_single_hook[of s] by blast
qed




lemma twelve_one_hook_single:
  "list_all (\<lambda>we. length (active_hooks twelve_one_hook (we_user_id we)) = 1)
      (webhook_events twelve_one_hook)"
  by code_simp

lemma twelve_distinct:
  "distinct (map we_created_at (filter pending_row (webhook_events twelve_one_hook)))"
  by code_simp

lemma twelve_sorted:
  "map we_id (take BATCH_SIZE (sort_key we_created_at (filter pending_row (webhook_events twelve_one_hook))))
     = [1, 2, 3, 4, 5, 6, 7, 8, 9, 10]"
  by code_simp

theorem tick_selection_witness:
  "list_all (\<lambda>we. length (active_hooks twelve_one_hook (we_user_id we)) = 1)
      (webhook_events twelve_one_hook)
   \<and> distinct (map we_created_at (filter pending_row (webhook_events twelve_one_hook)))
   \<and> length (filter pending_row (webhook_events twelve_one_hook)) = 12
   \<and> map we_id (map fst (select_undelivered twelve_one_hook)) = [1, 2, 3, 4, 5, 6, 7, 8, 9, 10]"
proof -
  have one: "\<forall>we \<in> set (webhook_events twelve_one_hook).
      length (active_hooks twelve_one_hook (we_user_id we)) = 1"
    using twelve_one_hook_single by (simp add: list_all_iff)
  have "map fst (select_undelivered twelve_one_hook)
        = take BATCH_SIZE (sort_key we_created_at (filter pending_row (webhook_events twelve_one_hook)))"
    using tick_selection[of twelve_one_hook] one twelve_distinct by blast
  then have "map we_id (map fst (select_undelivered twelve_one_hook)) = [1, 2, 3, 4, 5, 6, 7, 8, 9, 10]"
    using twelve_sorted by simp
  moreover have "length (filter pending_row (webhook_events twelve_one_hook)) = 12"
    by code_simp
  ultimately show ?thesis using twelve_one_hook_single twelve_distinct by simp
qed

text \<open>
  C3 as stated fails when the user has two active subscriptions: of twelve retryable rows
  created at distinct times, a tick takes the five oldest, each twice.
\<close>

theorem batch_counts_pairs_counterexample:
  "length (filter pending_row (webhook_events twelve_two_hooks)) = 12
   \<and> distinct (map we_created_at (webhook_events twelve_two_hooks))
   \<and> map (we_id \<circ> fst) (select_undelivered twelve_two_hooks) = [1, 1, 2, 2, 3, 3, 4, 4, 5, 5]"
  by code_simp

section \<open>Rows that are not selected\<close>

lemma retry_row_other_row:
  "i < length (webhook_events s) \<Longrightarrow> we_id (fst row) \<noteq> we_id (webhook_events s ! i)
   \<Longrightarrow> webhook_events (retry_row net row s) ! i = webhook_events s ! i"
  using retry_row_effect[of net row s] by auto


lemma fold_retry_length [simp]:
  "length (webhook_events (fold (retry_row net) rows s)) = length (webhook_events s)"
  by (induction rows arbitrary: s) simp_all

lemma tick_length [simp]:
  "length (webhook_events (worker_tick net s)) = length (webhook_events s)"
  by (simp add: worker_tick_def)

lemma tick_origins:
  "q \<in> set (new_requests s (worker_tick net s))
   \<Longrightarrow> \<exists>row \<in> set (select_undelivered s). rq_origin q = FromRetry (we_id (fst row))"
proof -
  assume q: "q \<in> set (new_requests s (worker_tick net s))"
  then have "(rq_origin q, rq_url q, rq_event q, rq_body q)
      \<in> set (map (\<lambda>q. (rq_origin q, rq_url q, rq_event q, rq_body q))
               (new_requests s (worker_tick net s)))"
    by simp
  then have "(rq_origin q, rq_url q, rq_event q, rq_body q)
      \<in> set (map (\<lambda>row. (FromRetry (we_id (fst row)), wh_url (snd row), we_event (fst row),
                    we_payload (fst row))) (select_undelivered s))"
    by (simp only: tick_requests)
  then show ?thesis by auto
qed








section \<open>The worker, one await at a time\<close>

text \<open>A callback of the worker that is resumed each time as soon as it is suspended does
  what \<open>worker_tick\<close> does; so \<open>worker_tick\<close> and the step \<open>Tick\<close> are the tick that nothing
  overlaps and whose requests settle at once.\<close>

lemma retry_row_split:
  "retry_row net row s = retry_update row (fst (retry_send net row s)) (snd (retry_send net row s))"
  by (simp add: retry_row_def retry_send_def retry_update_def Let_def split_beta)

lemma tick_loop_Nil [simp]: "tick_loop net [] s = (s, [])"
  by (simp add: tick_loop_def)

lemma tick_loop_Cons [simp]:
  "tick_loop net (row # rest) s =
     (snd (retry_send net row s),
      [\<lparr>tk_row = row, tk_ok = fst (retry_send net row s), tk_rest = rest\<rparr>])"
  by (simp add: tick_loop_def split_beta)

lemma tick_resume_idle [simp]: "tick_resume net (length ts) (s, ts) = (s, ts)"
  by (simp add: tick_resume_def)

lemma tick_resume_idle_funpow [simp]: "(tick_resume net (length ts) ^^ n) (s, ts) = (s, ts)"
  by (induction n) simp_all

lemma tick_resume_last:
  "tick_resume net (length ts) (s, ts @ [t]) =
     (fst (tick_loop net (tk_rest t) (retry_update (tk_row t) (tk_ok t) s)),
      ts @ snd (tick_loop net (tk_rest t) (retry_update (tk_row t) (tk_ok t) s)))"
  by (simp add: tick_resume_def split_beta)

lemma tick_loop_drain:
  "(tick_resume net (length ts) ^^ length rows)
      (fst (tick_loop net rows s), ts @ snd (tick_loop net rows s))
     = (fold (retry_row net) rows s, ts)"
proof (induction rows arbitrary: s)
  case Nil
  show ?case by simp
next
  case (Cons row rest)
  have "(tick_resume net (length ts) ^^ length (row # rest))
      (fst (tick_loop net (row # rest) s), ts @ snd (tick_loop net (row # rest) s))
      = (tick_resume net (length ts) ^^ length rest)
          (tick_resume net (length ts)
             (fst (tick_loop net (row # rest) s), ts @ snd (tick_loop net (row # rest) s)))"
    by (simp add: funpow_swap1)
  also have "tick_resume net (length ts)
             (fst (tick_loop net (row # rest) s), ts @ snd (tick_loop net (row # rest) s))
      = (fst (tick_loop net rest (retry_row net row s)),
         ts @ snd (tick_loop net rest (retry_row net row s)))"
    by (simp add: tick_resume_last retry_row_split)
  also have "(tick_resume net (length ts) ^^ length rest) \<dots>
      = (fold (retry_row net) rest (retry_row net row s), ts)"
    by (rule Cons.IH)
  finally show ?case by simp
qed

lemma tick_start_drain:
  assumes "length (select_undelivered s) \<le> n"
  shows "(tick_resume net (length ts) ^^ n) (tick_start net (s, ts)) = (worker_tick net s, ts)"
proof -
  obtain m where n: "n = m + length (select_undelivered s)"
    using assms by (metis le_add_diff_inverse2)
  have "(tick_resume net (length ts) ^^ length (select_undelivered s)) (tick_start net (s, ts))
      = (worker_tick net s, ts)"
    using tick_loop_drain[where net = net and ts = ts and rows = "select_undelivered s" and s = s]
    by (simp add: tick_start_def worker_tick_def split_beta)
  then show ?thesis unfolding n funpow_add by simp
qed

lemma atomic_tick:
  "sys_exec e (Do Tick) (s, ts)
     = (tick_resume (env_net e) (length ts) ^^ BATCH_SIZE) (tick_start (env_net e) (s, ts))"
  by (simp add: tick_start_drain select_length)

lemma sys_run_Nil [simp]: "sys_run e [] sys = sys"
  by (simp add: sys_run_def)

lemma sys_run_Cons [simp]: "sys_run e (a # acts) sys = sys_run e acts (sys_exec e a sys)"
  by (simp add: sys_run_def)


lemma retry_send_fields [simp]:
  "webhooks (snd (retry_send net row s)) = webhooks s"
  "webhook_events (snd (retry_send net row s)) = webhook_events s"
  "seq_webhooks (snd (retry_send net row s)) = seq_webhooks s"
  "seq_webhook_events (snd (retry_send net row s)) = seq_webhook_events s"
  "clock (snd (retry_send net row s)) = clock s"
  "inflight (snd (retry_send net row s)) = inflight s"
  by (simp_all add: retry_send_def fetch_def Let_def)


lemma retry_update_fields [simp]:
  "webhooks (retry_update row ok s) = webhooks s"
  "seq_webhooks (retry_update row ok s) = seq_webhooks s"
  "seq_webhook_events (retry_update row ok s) = seq_webhook_events s"
  "clock (retry_update row ok s) = clock s"
  "inflight (retry_update row ok s) = inflight s"
  "http_log (retry_update row ok s) = http_log s"
  by (simp_all add: retry_update_def update_delivered_def update_failed_def)


lemma tick_loop_fields [simp]:
  "webhooks (fst (tick_loop net rows s)) = webhooks s"
  "webhook_events (fst (tick_loop net rows s)) = webhook_events s"
  "seq_webhooks (fst (tick_loop net rows s)) = seq_webhooks s"
  "seq_webhook_events (fst (tick_loop net rows s)) = seq_webhook_events s"
  "clock (fst (tick_loop net rows s)) = clock s"
  "inflight (fst (tick_loop net rows s)) = inflight s"
  by (cases rows; simp)+



lemma held_ids_append [simp]: "held_ids (xs @ ys) = held_ids xs @ held_ids ys"
  by (simp add: held_ids_def)





lemma advance_zero [simp]: "advance 0 s = s"
  by (simp add: advance_def)


lemma sys_run_lone_tick:
  "sys_run e (lone_tick d 0) (s, []) = (worker_tick (env_net e) (advance d s), [])"
proof -
  have r: "sys_run e (concat (replicate n [Do (Advance 0), TickResume 0])) sys
      = (tick_resume (env_net e) 0 ^^ n) sys" for n sys
    by (induction n arbitrary: sys) (simp_all add: funpow_swap1)
  show ?thesis
    using tick_start_drain[where s = "advance d s" and n = BATCH_SIZE and net = "env_net e"
        and ts = "[]"]
    by (simp add: lone_tick_def r select_length)
qed

section \<open>One subscription, one pending row\<close>

lemma lone_ticks_Nil [simp]: "lone_ticks [] = []"
  by (simp add: lone_ticks_def)

lemma lone_ticks_Cons [simp]: "lone_ticks ((d, wt) # ds) = lone_tick d wt @ lone_ticks ds"
  by (simp add: lone_ticks_def)





lemma advance_select [simp]: "select_undelivered (advance d s) = select_undelivered s"
  by (simp add: select_undelivered_def)

lemma advance_active_hooks [simp]: "active_hooks (advance d s) u = active_hooks s u"
  by (simp add: active_hooks_def)

lemma retry_row_active_hooks [simp]: "active_hooks (retry_row net row s) u = active_hooks s u"
  by (simp add: active_hooks_def)












section \<open>Rows that are never selected again\<close>

lemma closed_retry_row:
  assumes c: "row_closed i r s" and ne: "we_id (fst row) \<noteq> we_id r"
  shows "row_closed i r (retry_row net row s)"
proof -
  obtain q :: http_request where q: "webhook_events (retry_row net row s) =
         map (\<lambda>x. if we_id x = we_id (fst row)
                   then x\<lparr>we_delivered_at := (if rq_ok q then Some (clock s) else we_delivered_at x),
                          we_attempts := we_attempts x + 1\<rparr>
                   else x) (webhook_events s)"
    using retry_row_effect[of net row s] by blast
  have i: "i < length (webhook_events s)" "webhook_events s ! i = r" using c by (simp_all add: row_closed_def)
  have "webhook_events (retry_row net row s) ! i = r"
    using retry_row_other_row[of i s row net] i ne by simp
  moreover have "\<forall>x \<in> set (webhook_events (retry_row net row s)). we_id x = we_id r \<longrightarrow> \<not> pending_row x"
    using c ne unfolding q row_closed_def by auto
  ultimately show ?thesis using c by (simp add: row_closed_def)
qed

lemma closed_fold_retry:
  "row_closed i r s \<Longrightarrow> \<forall>row \<in> set rows. we_id (fst row) \<noteq> we_id r
   \<Longrightarrow> row_closed i r (fold (retry_row net) rows s)"
  by (induction rows arbitrary: s) (simp_all add: closed_retry_row)

lemma closed_not_selected:
  assumes c: "row_closed i r s" and row: "row \<in> set (select_undelivered s)"
  shows "we_id (fst row) \<noteq> we_id r"
proof -
  have "(fst row, snd row) \<in> set (select_undelivered s)" using row by simp
  from select_member[OF this]
  have "fst row \<in> set (webhook_events s)" "pending_row (fst row)" by simp_all
  then show ?thesis using c by (auto simp: row_closed_def)
qed

lemma closed_exec:
  assumes c: "row_closed i r s"
  shows "row_closed i r (exec e st s)
     \<and> (\<exists>R. http_log (exec e st s) = http_log s @ R
           \<and> (\<forall>q \<in> set R. rq_origin q \<noteq> FromRetry (we_id r)))"
proof (cases st)
  case (Dispatch u ev d)
  obtain R where R: "http_log (dispatchWebhook (env_net e) u ev d s) = http_log s @ R"
    "\<forall>q \<in> set R. rq_origin q = FromDispatch \<and> rq_event q = ev
           \<and> rq_body q = stringify_event ev d"
    using dispatchWebhook_log[of "env_net e" u ev d s] by blast
  have "row_closed i r (dispatchWebhook (env_net e) u ev d s)"
    using c by (simp add: row_closed_def)
  moreover have "\<forall>q \<in> set R. rq_origin q \<noteq> FromRetry (we_id r)" using R(2) by auto
  ultimately show ?thesis using Dispatch R(1) by auto
next
  case (Settle j)
  show ?thesis
  proof (cases "j < length (inflight s)")
    case True
    then obtain x where x: "webhook_events (settle j s) = webhook_events s @ [x]"
      "we_id x = seq_webhook_events s + 1" "http_log (settle j s) = http_log s"
      "seq_webhook_events (settle j s) = seq_webhook_events s + 1"
      using settle_effect[of j s] by blast
    have "row_closed i r (settle j s)"
      using c x by (auto simp: row_closed_def nth_append)
    then show ?thesis using Settle x(3) by simp
  next
    case False
    then show ?thesis using Settle c by (simp add: settle_noop)
  qed
next
  case Tick
  have ne: "\<forall>row \<in> set (select_undelivered s). we_id (fst row) \<noteq> we_id r"
    using closed_not_selected[OF c] by blast
  have a: "row_closed i r (worker_tick (env_net e) s)"
    unfolding worker_tick_def using c ne by (rule closed_fold_retry)
  obtain R where R: "http_log (worker_tick (env_net e) s) = http_log s @ R"
    using evolves_tick[of s "env_net e"] by (auto simp: evolves_def)
  have "\<forall>q \<in> set R. rq_origin q \<noteq> FromRetry (we_id r)"
    using tick_origins[of _ s "env_net e"] ne new_requests_append[OF R] by fastforce
  then show ?thesis using Tick a R by auto
next
  case (Advance d)
  then show ?thesis using c by (simp add: row_closed_def)
next
  case (CreateWebhook u b req)
  then show ?thesis using c by (simp add: row_closed_def)
next
  case (CreateUserWebhook u b req)
  then show ?thesis using c by (simp add: row_closed_def)
next
  case (DeleteWebhook u h)
  then show ?thesis using c by (simp add: row_closed_def)
qed

lemma closed_run:
  "row_closed i r s \<Longrightarrow>
   row_closed i r (run e steps s)
     \<and> (\<exists>R. http_log (run e steps s) = http_log s @ R
           \<and> (\<forall>q \<in> set R. rq_origin q \<noteq> FromRetry (we_id r)))"
  unfolding run_def
proof (induction steps arbitrary: s)
  case Nil
  then show ?case by simp
next
  case (Cons st steps)
  obtain R where a: "row_closed i r (exec e st s)" "http_log (exec e st s) = http_log s @ R"
    "\<forall>q \<in> set R. rq_origin q \<noteq> FromRetry (we_id r)"
    using closed_exec[OF Cons.prems, of e st] by blast
  obtain R' where b: "row_closed i r (fold (exec e) steps (exec e st s))"
    "http_log (fold (exec e) steps (exec e st s)) = http_log (exec e st s) @ R'"
    "\<forall>q \<in> set R'. rq_origin q \<noteq> FromRetry (we_id r)"
    using Cons.IH[OF a(1)] by blast
  show ?case
    using a b by (intro conjI exI[of _ "R @ R'"]) auto
qed






















text \<open>With one subscription the counter passes the cap as well when ticks overlap: five
  callbacks that start before any request has settled all hold the row, and each adds
  one to its counter.\<close>

lemma overlapping_ticks_pass_cap:
  "map (\<lambda>r. (we_delivered_at r, we_attempts r))
        (webhook_events (fst (sys_run env_never
           [Do (Dispatch 1 ''note.updated'' ''{}''), Do (Settle 0),
            TickStart, TickStart, TickStart, TickStart, TickStart,
            TickResume 0, TickResume 0, TickResume 0, TickResume 0, TickResume 0]
           (one_hook, []))))
       = [(None, 6)]"
  by (simp add: dispatchWebhook_def active_hooks_def dispatch_hook_def fetch_def Let_def
      settle_def insert_delivered_def insert_failed_def
      tick_start_def tick_resume_def retry_send_def retry_update_def
      update_delivered_def update_failed_def select_undelivered_def retry_eligible_def
      MAX_RETRY_ATTEMPTS_def BATCH_SIZE_def one_hook_def init_state_def hook_a_def
      env_never_def never_def requests_to_def)

section \<open>Properties of the registry\<close>

lemma split_comma_plain: "CHR '','' \<notin> set x \<Longrightarrow> split_comma x = [x]"
  by (induction x) auto

lemma split_comma_append:
  "CHR '','' \<notin> set x \<Longrightarrow> split_comma (x @ CHR '','' # rest) = x # split_comma rest"
  by (induction x) auto

lemma split_join_comma:
  "evs \<noteq> [] \<Longrightarrow> \<forall>e \<in> set evs. CHR '','' \<notin> set e \<Longrightarrow> split_comma (join_comma evs) = evs"
proof (induction evs rule: join_comma.induct)
  case 1
  then show ?case by simp
next
  case (2 x)
  then show ?case by (simp add: split_comma_plain)
next
  case (3 x y ys)
  then show ?case by (simp add: split_comma_append)
qed

lemma allowed_no_comma: "\<forall>e \<in> set ALLOWED_WEBHOOK_EVENTS. CHR '','' \<notin> set e"
  by (simp add: ALLOWED_WEBHOOK_EVENTS_def)

lemma createWebhook_bad_url:
  "url_rejected up isProd (body_url req) \<Longrightarrow>
   snd (createWebhook up isProd uid br req s) = s
   \<and> fst (createWebhook up isProd uid br req s) \<noteq> JsonSuccess
   \<and> (\<not> br \<longrightarrow> (\<exists>m c. fst (createWebhook up isProd uid br req s) = JsonError 400 m c))"
  by (cases "body_url req")
     (auto simp: createWebhook_def url_rejected_def Let_def split: option.splits)

lemma createUserWebhook_bad_url:
  "url_rejected up isProd (body_url req) \<Longrightarrow>
   createUserWebhook up isProd uid wj req s = (Redirect (''/admin?userId='' @ decimal uid), s)"
  by (cases "body_url req")
     (auto simp: createUserWebhook_def url_rejected_def Let_def split: option.splits)

lemma createWebhook_api_bad_events:
  "\<not> set (requested_events req) \<subseteq> set ALLOWED_WEBHOOK_EVENTS \<union> {[]} \<Longrightarrow>
   snd (createWebhook up isProd uid False req s) = s
   \<and> (\<exists>m c. fst (createWebhook up isProd uid False req s) = JsonError 400 m c)"
  by (auto simp: createWebhook_def requested_events_def Let_def list_all_iff split: option.splits)

lemma createWebhook_browser_no_valid:
  "filter (\<lambda>e. e \<in> set ALLOWED_WEBHOOK_EVENTS) (requested_events req) = [] \<Longrightarrow>
   createWebhook up isProd uid True req s = (Redirect ''/settings'', s)"
  by (auto simp: createWebhook_def requested_events_def Let_def filter_empty_conv
      split: option.splits)

lemma createUserWebhook_no_valid:
  "filter (\<lambda>e. e \<in> set ALLOWED_WEBHOOK_EVENTS) (requested_events req) = [] \<Longrightarrow>
   createUserWebhook up isProd uid wj req s = (Redirect (''/admin?userId='' @ decimal uid), s)"
  by (auto simp: createUserWebhook_def requested_events_def Let_def split: option.splits)

lemma filter_nonempty_allowed:
  "filter (\<lambda>x. x \<noteq> [] \<and> x \<in> set ALLOWED_WEBHOOK_EVENTS) xs
     = filter (\<lambda>e. e \<in> set ALLOWED_WEBHOOK_EVENTS) xs"
proof -
  have "[] \<notin> set ALLOWED_WEBHOOK_EVENTS" by (simp add: ALLOWED_WEBHOOK_EVENTS_def)
  then show ?thesis by (auto intro: filter_cong)
qed

lemma truthy_field_Some: "truthy_field x \<Longrightarrow> \<exists>u. x = Some u \<and> u \<noteq> []"
  by (cases x) simp_all

lemma createWebhook_snd:
  "snd (createWebhook up isProd uid br req s) =
     (if truthy_field (body_url req) \<and> truthy_field (body_secret req)
         \<and> truthy_events (body_events req)
         \<and> \<not> url_rejected up isProd (body_url req)
         \<and> (br \<or> set (requested_events req) \<subseteq> set ALLOWED_WEBHOOK_EVENTS \<union> {[]})
         \<and> (br \<longrightarrow> filter (\<lambda>e. e \<in> set ALLOWED_WEBHOOK_EVENTS) (requested_events req) \<noteq> [])
      then insert_webhook uid (the (body_url req)) (the (body_secret req))
             (join_comma (filter (\<lambda>e. e \<in> set ALLOWED_WEBHOOK_EVENTS) (requested_events req))) s
      else s)"
proof (cases "truthy_field (body_url req) \<and> truthy_field (body_secret req)
         \<and> truthy_events (body_events req)")
  case False
  then show ?thesis by (auto simp: createWebhook_def)
next
  case True
  then obtain u where u: "body_url req = Some u" using truthy_field_Some by blast
  have la: "list_all (\<lambda>e. e \<in> set ALLOWED_WEBHOOK_EVENTS)
              (filter (\<lambda>e. e \<noteq> []) (map trim (event_list (body_events req))))
            \<longleftrightarrow> set (requested_events req) \<subseteq> set ALLOWED_WEBHOOK_EVENTS \<union> {[]}"
    by (auto simp: list_all_iff requested_events_def)
  show ?thesis
  proof (cases "up u")
    case None
    then show ?thesis using True u by (simp add: createWebhook_def url_rejected_def)
  next
    case (Some p)
    then show ?thesis
      using True u la
      by (auto simp: createWebhook_def url_rejected_def Let_def filter_nonempty_allowed
          requested_events_def[symmetric])
  qed
qed

lemma createUserWebhook_snd:
  "snd (createUserWebhook up isProd uid wj req s) =
     (if \<not> url_rejected up isProd (body_url req)
         \<and> filter (\<lambda>e. e \<in> set ALLOWED_WEBHOOK_EVENTS) (requested_events req) \<noteq> []
         \<and> body_secret req \<noteq> None
      then insert_webhook uid (the (body_url req)) (the (body_secret req))
             (join_comma (filter (\<lambda>e. e \<in> set ALLOWED_WEBHOOK_EVENTS) (requested_events req))) s
      else s)"
proof (cases "body_url req")
  case None
  then show ?thesis by (simp add: createUserWebhook_def url_rejected_def)
next
  case (Some u)
  show ?thesis
  proof (cases "up u")
    case None
    then show ?thesis using Some by (simp add: createUserWebhook_def url_rejected_def)
  next
    case p: (Some p)
    show ?thesis
      using Some p
      by (cases "body_secret req")
         (simp_all add: createUserWebhook_def url_rejected_def Let_def
            requested_events_def[symmetric])
  qed
qed

lemma insert_webhook_stored:
  assumes "body_url req = Some u" "body_secret req = Some k"
    and "\<not> url_rejected up isProd (body_url req)"
  shows "\<exists>w. insert_webhook uid u k
             (join_comma (filter (\<lambda>e. e \<in> set ALLOWED_WEBHOOK_EVENTS) (requested_events req))) s
            = s\<lparr>webhooks := webhooks s @ [w], seq_webhooks := seq_webhooks s + 1\<rparr>
          \<and> wh_created_at w = clock s \<and> stored_for up isProd uid req s w"
  using assms
  by (intro exI[of _ "\<lparr>wh_id = seq_webhooks s + 1, wh_user_id = uid, wh_url = u, wh_secret = k,
        wh_events = join_comma (filter (\<lambda>e. e \<in> set ALLOWED_WEBHOOK_EVENTS) (requested_events req)),
        wh_active = 1, wh_created_at = clock s\<rparr>"])
     (simp add: insert_webhook_def stored_for_def)

lemma createWebhook_stored:
  "snd (createWebhook up isProd uid br req s) = s
   \<or> (\<exists>w. snd (createWebhook up isProd uid br req s)
            = s\<lparr>webhooks := webhooks s @ [w], seq_webhooks := seq_webhooks s + 1\<rparr>
          \<and> wh_created_at w = clock s
          \<and> stored_for up isProd uid req s w
          \<and> (br \<longrightarrow> filter (\<lambda>e. e \<in> set ALLOWED_WEBHOOK_EVENTS) (requested_events req) \<noteq> [])
          \<and> (\<not> br \<longrightarrow> set (requested_events req) \<subseteq> set ALLOWED_WEBHOOK_EVENTS \<union> {[]}))"
proof (cases "truthy_field (body_url req) \<and> truthy_field (body_secret req)
         \<and> truthy_events (body_events req)
         \<and> \<not> url_rejected up isProd (body_url req)
         \<and> (br \<or> set (requested_events req) \<subseteq> set ALLOWED_WEBHOOK_EVENTS \<union> {[]})
         \<and> (br \<longrightarrow> filter (\<lambda>e. e \<in> set ALLOWED_WEBHOOK_EVENTS) (requested_events req) \<noteq> [])")
  case False
  then have "snd (createWebhook up isProd uid br req s) = s"
    by (subst createWebhook_snd) (simp only: if_False)
  then show ?thesis by simp
next
  case True
  obtain u k where uk: "body_url req = Some u" "body_secret req = Some k"
    using True truthy_field_Some by blast
  have eq: "snd (createWebhook up isProd uid br req s)
      = insert_webhook uid u k
          (join_comma (filter (\<lambda>e. e \<in> set ALLOWED_WEBHOOK_EVENTS) (requested_events req))) s"
    using True uk by (subst createWebhook_snd) simp
  obtain w where w: "insert_webhook uid u k
             (join_comma (filter (\<lambda>e. e \<in> set ALLOWED_WEBHOOK_EVENTS) (requested_events req))) s
            = s\<lparr>webhooks := webhooks s @ [w], seq_webhooks := seq_webhooks s + 1\<rparr>"
    "wh_created_at w = clock s" "stored_for up isProd uid req s w"
    using insert_webhook_stored[OF uk, of up isProd uid s] True by blast
  show ?thesis
    by (rule disjI2, rule exI[of _ w]) (use w eq True in auto)
qed

lemma createUserWebhook_stored:
  "snd (createUserWebhook up isProd uid wj req s) = s
   \<or> (\<exists>w. snd (createUserWebhook up isProd uid wj req s)
            = s\<lparr>webhooks := webhooks s @ [w], seq_webhooks := seq_webhooks s + 1\<rparr>
          \<and> wh_created_at w = clock s
          \<and> stored_for up isProd uid req s w
          \<and> filter (\<lambda>e. e \<in> set ALLOWED_WEBHOOK_EVENTS) (requested_events req) \<noteq> [])"
proof (cases "\<not> url_rejected up isProd (body_url req)
         \<and> filter (\<lambda>e. e \<in> set ALLOWED_WEBHOOK_EVENTS) (requested_events req) \<noteq> []
         \<and> body_secret req \<noteq> None")
  case False
  then have "snd (createUserWebhook up isProd uid wj req s) = s"
    by (subst createUserWebhook_snd) (simp only: if_False)
  then show ?thesis by simp
next
  case True
  then obtain k where k: "body_secret req = Some k" by auto
  from True obtain u where u: "body_url req = Some u"
    by (cases "body_url req") (simp_all add: url_rejected_def)
  have eq: "snd (createUserWebhook up isProd uid wj req s)
      = insert_webhook uid u k
          (join_comma (filter (\<lambda>e. e \<in> set ALLOWED_WEBHOOK_EVENTS) (requested_events req))) s"
    using True u k by (subst createUserWebhook_snd) simp
  obtain w where w: "insert_webhook uid u k
             (join_comma (filter (\<lambda>e. e \<in> set ALLOWED_WEBHOOK_EVENTS) (requested_events req))) s
            = s\<lparr>webhooks := webhooks s @ [w], seq_webhooks := seq_webhooks s + 1\<rparr>"
    "wh_created_at w = clock s" "stored_for up isProd uid req s w"
    using insert_webhook_stored[OF u k, of up isProd uid s] True by blast
  show ?thesis
    by (rule disjI2, rule exI[of _ w]) (use w eq True in auto)
qed

text \<open>
  C5, as the two handlers validate. A request whose URL is missing, unparseable, not http
  or https, or not https in production is rejected by both and nothing is stored. On the
  API path of \<open>createWebhook\<close> (no session) a request naming a non-empty event outside the
  taxonomy is rejected with a 400 error and nothing is stored. On the browser path and in
  the administrator's handler names outside the taxonomy are dropped, and the request is
  rejected, storing nothing, when no valid name remains. Whatever is stored is one row
  with the request's URL and secret and exactly the valid names of the request: no stored
  row has a name outside the taxonomy, and rows stored by the browser path or by the
  administrator's handler have at least one name.
\<close>

theorem creation_validates:
  "(url_rejected up isProd (body_url req) \<longrightarrow>
      snd (createWebhook up isProd uid br req s) = s
      \<and> fst (createWebhook up isProd uid br req s) \<noteq> JsonSuccess
      \<and> (\<not> br \<longrightarrow> (\<exists>m c. fst (createWebhook up isProd uid br req s) = JsonError 400 m c))
      \<and> createUserWebhook up isProd uid wj req s = (Redirect (''/admin?userId='' @ decimal uid), s))
   \<and> (\<not> set (requested_events req) \<subseteq> set ALLOWED_WEBHOOK_EVENTS \<union> {[]} \<longrightarrow>
        snd (createWebhook up isProd uid False req s) = s
        \<and> (\<exists>m c. fst (createWebhook up isProd uid False req s) = JsonError 400 m c))
   \<and> (filter (\<lambda>e. e \<in> set ALLOWED_WEBHOOK_EVENTS) (requested_events req) = [] \<longrightarrow>
        createWebhook up isProd uid True req s = (Redirect ''/settings'', s)
        \<and> createUserWebhook up isProd uid wj req s = (Redirect (''/admin?userId='' @ decimal uid), s))
   \<and> (snd (createWebhook up isProd uid br req s) = s
        \<or> (\<exists>w evs. snd (createWebhook up isProd uid br req s)
                     = s\<lparr>webhooks := webhooks s @ [w], seq_webhooks := seq_webhooks s + 1\<rparr>
              \<and> stored_for up isProd uid req s w
              \<and> wh_events w = join_comma evs \<and> set evs \<subseteq> set ALLOWED_WEBHOOK_EVENTS
              \<and> set evs \<subseteq> set (requested_events req)
              \<and> (br \<longrightarrow> evs \<noteq> [] \<and> split_comma (wh_events w) = evs)))
   \<and> (snd (createUserWebhook up isProd uid wj req s) = s
        \<or> (\<exists>w evs. snd (createUserWebhook up isProd uid wj req s)
                     = s\<lparr>webhooks := webhooks s @ [w], seq_webhooks := seq_webhooks s + 1\<rparr>
              \<and> stored_for up isProd uid req s w
              \<and> wh_events w = join_comma evs \<and> set evs \<subseteq> set ALLOWED_WEBHOOK_EVENTS
              \<and> set evs \<subseteq> set (requested_events req)
              \<and> evs \<noteq> [] \<and> split_comma (wh_events w) = evs))"
proof (intro conjI)
  show "url_rejected up isProd (body_url req) \<longrightarrow>
      snd (createWebhook up isProd uid br req s) = s
      \<and> fst (createWebhook up isProd uid br req s) \<noteq> JsonSuccess
      \<and> (\<not> br \<longrightarrow> (\<exists>m c. fst (createWebhook up isProd uid br req s) = JsonError 400 m c))
      \<and> createUserWebhook up isProd uid wj req s = (Redirect (''/admin?userId='' @ decimal uid), s)"
    using createWebhook_bad_url[of up isProd req uid br s]
      createUserWebhook_bad_url[of up isProd req uid wj s] by blast
  show "\<not> set (requested_events req) \<subseteq> set ALLOWED_WEBHOOK_EVENTS \<union> {[]} \<longrightarrow>
        snd (createWebhook up isProd uid False req s) = s
        \<and> (\<exists>m c. fst (createWebhook up isProd uid False req s) = JsonError 400 m c)"
    using createWebhook_api_bad_events[of req up isProd uid s] by blast
  show "filter (\<lambda>e. e \<in> set ALLOWED_WEBHOOK_EVENTS) (requested_events req) = [] \<longrightarrow>
        createWebhook up isProd uid True req s = (Redirect ''/settings'', s)
        \<and> createUserWebhook up isProd uid wj req s = (Redirect (''/admin?userId='' @ decimal uid), s)"
    using createWebhook_browser_no_valid[of req up isProd uid s]
      createUserWebhook_no_valid[of req up isProd uid wj s] by blast
next
  let ?valid = "filter (\<lambda>e. e \<in> set ALLOWED_WEBHOOK_EVENTS) (requested_events req)"
  show "snd (createWebhook up isProd uid br req s) = s
        \<or> (\<exists>w evs. snd (createWebhook up isProd uid br req s)
                     = s\<lparr>webhooks := webhooks s @ [w], seq_webhooks := seq_webhooks s + 1\<rparr>
              \<and> stored_for up isProd uid req s w
              \<and> wh_events w = join_comma evs \<and> set evs \<subseteq> set ALLOWED_WEBHOOK_EVENTS
              \<and> set evs \<subseteq> set (requested_events req)
              \<and> (br \<longrightarrow> evs \<noteq> [] \<and> split_comma (wh_events w) = evs))"
  proof (cases "snd (createWebhook up isProd uid br req s) = s")
    case True
    then show ?thesis by simp
  next
    case False
    then obtain w where w: "snd (createWebhook up isProd uid br req s)
            = s\<lparr>webhooks := webhooks s @ [w], seq_webhooks := seq_webhooks s + 1\<rparr>"
      "stored_for up isProd uid req s w" "br \<longrightarrow> ?valid \<noteq> []"
      using createWebhook_stored[of up isProd uid br req s] by blast
    have e: "wh_events w = join_comma ?valid" using w(2) by (simp add: stored_for_def)
    have sp: "?valid \<noteq> [] \<longrightarrow> split_comma (wh_events w) = ?valid"
      using split_join_comma[of ?valid] allowed_no_comma e by auto
    show ?thesis
      by (rule disjI2, rule exI[of _ w], rule exI[of _ ?valid]) (use w e sp in auto)
  qed
  show "snd (createUserWebhook up isProd uid wj req s) = s
        \<or> (\<exists>w evs. snd (createUserWebhook up isProd uid wj req s)
                     = s\<lparr>webhooks := webhooks s @ [w], seq_webhooks := seq_webhooks s + 1\<rparr>
              \<and> stored_for up isProd uid req s w
              \<and> wh_events w = join_comma evs \<and> set evs \<subseteq> set ALLOWED_WEBHOOK_EVENTS
              \<and> set evs \<subseteq> set (requested_events req)
              \<and> evs \<noteq> [] \<and> split_comma (wh_events w) = evs)"
  proof (cases "snd (createUserWebhook up isProd uid wj req s) = s")
    case True
    then show ?thesis by simp
  next
    case False
    then obtain w where w: "snd (createUserWebhook up isProd uid wj req s)
            = s\<lparr>webhooks := webhooks s @ [w], seq_webhooks := seq_webhooks s + 1\<rparr>"
      "stored_for up isProd uid req s w" "?valid \<noteq> []"
      using createUserWebhook_stored[of up isProd uid wj req s] by blast
    have e: "wh_events w = join_comma ?valid" using w(2) by (simp add: stored_for_def)
    have sp: "split_comma (wh_events w) = ?valid"
      using split_join_comma[of ?valid] allowed_no_comma e w(3) by auto
    show ?thesis
      by (rule disjI2, rule exI[of _ w], rule exI[of _ ?valid]) (use w e sp in auto)
  qed
qed

lemma requested_mixed: "requested_events req_mixed = [''note.updated'', ''bogus'']"
  by code_simp

lemma url_rejected_ftp: "url_rejected example_url_protocol True (body_url req_ftp)"
  by code_simp

theorem creation_validates_witness:
  "url_rejected example_url_protocol True (body_url req_ftp)
   \<and> snd (createWebhook example_url_protocol True 1 False req_ftp init_state) = init_state
   \<and> createUserWebhook example_url_protocol True 1 False req_ftp init_state
       = (Redirect (''/admin?userId='' @ decimal 1), init_state)
   \<and> \<not> set (requested_events req_mixed) \<subseteq> set ALLOWED_WEBHOOK_EVENTS \<union> {[]}
   \<and> snd (createWebhook example_url_protocol True 1 False req_mixed init_state) = init_state
   \<and> snd (createWebhook example_url_protocol True 1 True req_a init_state)
       = init_state\<lparr>webhooks := [hook_a], seq_webhooks := 1\<rparr>
   \<and> split_comma (wh_events hook_a) = [''note.updated'']"
proof -
  have m: "\<not> set (requested_events req_mixed) \<subseteq> set ALLOWED_WEBHOOK_EVENTS \<union> {[]}"
    by (simp add: requested_mixed ALLOWED_WEBHOOK_EVENTS_def)
  note t1 = creation_validates[of example_url_protocol True req_ftp 1 False init_state False]
  note t2 = creation_validates[of example_url_protocol True req_mixed 1 False init_state False]
  have a: "snd (createWebhook example_url_protocol True 1 False req_ftp init_state) = init_state"
    "createUserWebhook example_url_protocol True 1 False req_ftp init_state
       = (Redirect (''/admin?userId='' @ decimal 1), init_state)"
    using t1 url_rejected_ftp by blast+
  have b: "snd (createWebhook example_url_protocol True 1 False req_mixed init_state) = init_state"
    using t2 m by blast
  have c: "snd (createWebhook example_url_protocol True 1 True req_a init_state)
       = init_state\<lparr>webhooks := [hook_a], seq_webhooks := 1\<rparr>"
    by code_simp
  have d: "split_comma (wh_events hook_a) = [''note.updated'']" by code_simp
  show ?thesis using url_rejected_ftp a m b c d by blast
qed

text \<open>
  C5 as stated fails: the events \<open>note.updated, bogus\<close> are not a subset of the taxonomy,
  and both the browser path and the administrator's handler store a subscription for
  them, with \<open>bogus\<close> dropped.
\<close>

theorem invalid_names_dropped_counterexample:
  "''bogus'' \<in> set (requested_events req_mixed)
   \<and> ''bogus'' \<notin> set ALLOWED_WEBHOOK_EVENTS
   \<and> createWebhook example_url_protocol True 1 True req_mixed init_state
       = (Redirect ''/settings'', init_state\<lparr>webhooks := [hook_a], seq_webhooks := 1\<rparr>)
   \<and> createUserWebhook example_url_protocol True 1 True req_mixed init_state
       = (JsonSuccess, init_state\<lparr>webhooks := [hook_a], seq_webhooks := 1\<rparr>)"
  by code_simp

text \<open>
  The API path has no check that a valid name remains: an empty array of events is
  stored as a subscription with no event, where the administrator's handler and the
  browser path reject the same request.
\<close>

lemma api_empty_event_list_stored:
  "createWebhook example_url_protocol True 1 False req_empty init_state
     = (JsonSuccess, init_state\<lparr>webhooks := [hook_a\<lparr>wh_events := []\<rparr>], seq_webhooks := 1\<rparr>)
   \<and> createUserWebhook example_url_protocol True 1 True req_empty init_state
       = (Redirect (''/admin?userId='' @ decimal 1), init_state)
   \<and> createWebhook example_url_protocol True 1 True req_empty init_state
       = (Redirect ''/settings'', init_state)"
  by code_simp

end
